theory Spec2Isabelle
  imports Complex_Main "HOL-Library.Sublist"
begin

section \<open>Data model\<close>

text \<open>
  The pipeline of \<^verbatim>\<open>ETL.py\<close> works on pandas data frames. A cell is a missing value
  (None, NaN, NaT), a finite number, an infinity of float64, or a text. Numbers are written
  as rationals: every float64 and int64 value is one; what the arithmetic of pandas and
  numpy makes of them (rounding, overflow, NaN) is not fixed here but taken as a parameter
  where the KPIs are computed. A row holds its cells under their column labels, in column
  order; a frame keeps its column labels beside its rows, so that a frame without rows
  still has columns.
\<close>

datatype cell = Null | Num rat | Str string | Inf bool

type_synonym row = "(string \<times> cell) list"

record frame =
  columns :: "string list"
  rows :: "row list"

datatype error =
    KeyError string
  | ValueError string
  | TypeError string
  | AttributeError string
  | PermissionError string
  | DatabaseError string

text \<open>Every row of a frame carries exactly the frame's column labels.\<close>

definition wf_frame :: "frame \<Rightarrow> bool" where
  "wf_frame df = list_all (\<lambda>r. map fst r = columns df) (rows df)"

text \<open>\<^verbatim>\<open>df[name]\<close> read at one row: the cell under the label.\<close>

definition cell_at :: "row \<Rightarrow> string \<Rightarrow> cell" where
  "cell_at r name = (case map_of r name of Some v \<Rightarrow> v | None \<Rightarrow> Null)"

section \<open>Merge engine (ETL.py, safe_merge and the three joins of process_single_file)\<close>

text \<open>
  \<^verbatim>\<open>right_df.drop(columns=dup_cols)\<close>: every column whose label is listed goes, in the
  header and in each row.
\<close>

definition drop_columns :: "frame \<Rightarrow> string list \<Rightarrow> frame" where
  "drop_columns df names =
     \<lparr>columns = filter (\<lambda>c. c \<notin> set names) (columns df),
      rows = map (filter (\<lambda>(c, v). c \<notin> set names)) (rows df)\<rparr>"

text \<open>The key column of a frame.\<close>

definition key_values :: "frame \<Rightarrow> string \<Rightarrow> cell list" where
  "key_values df on_col = map (\<lambda>r. cell_at r on_col) (rows df)"

text \<open>
  \<^verbatim>\<open>left_df.merge(right_df, on=on_col, how="left")\<close> of pandas, with its default suffixes.
  pandas looks the key up in the right frame first, then in the left one: a frame without the
  label raises a KeyError, a frame in which the label names more than one column a
  ValueError. It then compares the dtypes of the two key columns and refuses with a
  ValueError to join, for instance, a numeric key column with one of texts; that test is
  pandas's own and is a parameter here, a predicate on the two key columns. Each left row, in
  order, is paired with every right row of the same key, in the right frame's order; a left
  row without a partner is kept once, with missing values in the right frame's columns.
  Labels the two frames share beside the key get the suffixes \<^verbatim>\<open>_x\<close> and \<^verbatim>\<open>_y\<close>.
\<close>

type_synonym key_test = "cell list \<Rightarrow> cell list \<Rightarrow> bool"

definition suffixed :: "string set \<Rightarrow> string \<Rightarrow> string \<Rightarrow> string" where
  "suffixed overlap sfx c = (if c \<in> overlap then c @ sfx else c)"

definition merge_row :: "string set \<Rightarrow> string \<Rightarrow> row \<Rightarrow> row \<Rightarrow> row" where
  "merge_row overlap on_col x y =
     map (\<lambda>(c, v). (suffixed overlap ''_x'' c, v)) x @
     map (\<lambda>(c, v). (suffixed overlap ''_y'' c, v)) (filter (\<lambda>(c, v). c \<noteq> on_col) y)"

definition matches :: "string \<Rightarrow> row \<Rightarrow> row list \<Rightarrow> row list" where
  "matches on_col x rs = filter (\<lambda>y. cell_at y on_col = cell_at x on_col) rs"

definition join_row :: "string set \<Rightarrow> string \<Rightarrow> frame \<Rightarrow> row \<Rightarrow> row list" where
  "join_row overlap on_col right_df x =
     (case matches on_col x (rows right_df) of
        [] \<Rightarrow> [merge_row overlap on_col x (map (\<lambda>c. (c, Null)) (columns right_df))]
      | y # ys \<Rightarrow> map (merge_row overlap on_col x) (y # ys))"

definition key_error :: "frame \<Rightarrow> string \<Rightarrow> error option" where
  "key_error df on_col =
     (if on_col \<in> set (columns df)
      then (if count_list (columns df) on_col = 1 then None else Some (ValueError on_col))
      else Some (KeyError on_col))"

definition merge_left :: "key_test \<Rightarrow> frame \<Rightarrow> frame \<Rightarrow> string \<Rightarrow> error + frame" where
  "merge_left keys_ok left_df right_df on_col =
     (case key_error right_df on_col of
        Some e \<Rightarrow> Inl e
      | None \<Rightarrow>
          (case key_error left_df on_col of
             Some e \<Rightarrow> Inl e
           | None \<Rightarrow>
               if keys_ok (key_values left_df on_col) (key_values right_df on_col)
               then
                 (let overlap = (set (columns left_df) \<inter> set (columns right_df)) - {on_col}
                  in Inr \<lparr>columns =
                            map (suffixed overlap ''_x'') (columns left_df) @
                            map (suffixed overlap ''_y'')
                              (filter (\<lambda>c. c \<noteq> on_col) (columns right_df)),
                          rows = concat (map (join_row overlap on_col right_df) (rows left_df))\<rparr>)
               else Inl (ValueError on_col)))"

text \<open>
  \<^verbatim>\<open>safe_merge\<close> (ETL.py, lines 218 to 222): the right frame loses the columns whose label
  the left frame already has, the key apart, and is then left-joined.
\<close>

definition safe_merge :: "key_test \<Rightarrow> frame \<Rightarrow> frame \<Rightarrow> string \<Rightarrow> error + frame" where
  "safe_merge keys_ok left_df right_df on_col =
     (let dup_cols = filter (\<lambda>c. c \<in> set (columns left_df) \<and> c \<noteq> on_col) (columns right_df);
          right_df' = (if dup_cols \<noteq> [] then drop_columns right_df dup_cols else right_df)
      in merge_left keys_ok left_df right_df' on_col)"

text \<open>
  The three successive joins of \<^verbatim>\<open>process_single_file\<close> (ETL.py, lines 302 to 305), with
  Charges as the driving table; an exception of one join ends the sequence.
\<close>

definition merge_sheets :: "key_test \<Rightarrow> frame \<Rightarrow> frame \<Rightarrow> frame \<Rightarrow> frame \<Rightarrow> error + frame" where
  "merge_sheets keys_ok charges payment adjustment pending_ar =
     (case safe_merge keys_ok charges payment ''Claim No'' of
        Inl e \<Rightarrow> Inl e
      | Inr merged1 \<Rightarrow>
          (case safe_merge keys_ok merged1 adjustment ''Claim No'' of
             Inl e \<Rightarrow> Inl e
           | Inr merged2 \<Rightarrow> safe_merge keys_ok merged2 pending_ar ''Claim No''))"

text \<open>
  The right frame as \<^verbatim>\<open>safe_merge\<close> hands it to the join, without the columns whose label
  the left frame has; and how often a left row of key \<open>k\<close> comes out of a left join with a
  frame: once for each row of that key, and once when there is none.
\<close>

definition right_kept :: "frame \<Rightarrow> frame \<Rightarrow> string \<Rightarrow> frame" where
  "right_kept l r on_col =
     (let dup_cols = filter (\<lambda>c. c \<in> set (columns l) \<and> c \<noteq> on_col) (columns r)
      in if dup_cols \<noteq> [] then drop_columns r dup_cols else r)"

definition copies :: "frame \<Rightarrow> string \<Rightarrow> cell \<Rightarrow> nat" where
  "copies r on_col k = max 1 (count_list (key_values r on_col) k)"

text \<open>
  An instance of the key test for the examples: two key columns can be joined when one of
  them is empty or when both or neither hold a text.
\<close>

definition has_text :: "cell list \<Rightarrow> bool" where
  "has_text ks = list_ex (\<lambda>k. case k of Str s \<Rightarrow> True | _ \<Rightarrow> False) ks"

definition keys_mergeable :: key_test where
  "keys_mergeable ks1 ks2 = (ks1 = [] \<or> ks2 = [] \<or> has_text ks1 = has_text ks2)"

text \<open>
  Example sheets: a claim with two payments, and four sheets in which Charges and Payment
  both have a column \<open>insurance\<close>.
\<close>

definition cx_charges :: frame where
  "cx_charges = \<lparr>columns = [''Claim No'', ''Billed Amount''],
     rows = [[(''Claim No'', Num 1), (''Billed Amount'', Num 100)]]\<rparr>"

definition cx_payment :: frame where
  "cx_payment = \<lparr>columns = [''Claim No'', ''Paid Amount''],
     rows = [[(''Claim No'', Num 1), (''Paid Amount'', Num 40)],
             [(''Claim No'', Num 1), (''Paid Amount'', Num 60)]]\<rparr>"

definition cx_adjustment :: frame where
  "cx_adjustment = \<lparr>columns = [''Claim No'', ''Adjustment Amount''], rows = []\<rparr>"

definition cx_pending_ar :: frame where
  "cx_pending_ar = \<lparr>columns = [''Claim No'', ''AR Balance''], rows = []\<rparr>"

definition w_charges :: frame where
  "w_charges = \<lparr>columns = [''Claim No'', ''insurance'', ''Billed Amount''],
     rows = [[(''Claim No'', Num 1), (''insurance'', Str ''Aetna''), (''Billed Amount'', Num 100)],
             [(''Claim No'', Num 2), (''insurance'', Str ''Cigna''), (''Billed Amount'', Num 0)]]\<rparr>"

definition w_payment :: frame where
  "w_payment = \<lparr>columns = [''Claim No'', ''insurance'', ''Paid Amount''],
     rows = [[(''Claim No'', Num 1), (''insurance'', Str ''Medicare''), (''Paid Amount'', Num 80)]]\<rparr>"

definition w_adjustment :: frame where
  "w_adjustment = \<lparr>columns = [''Claim No'', ''Adjustment Amount''],
     rows = [[(''Claim No'', Num 2), (''Adjustment Amount'', Num 5)]]\<rparr>"

definition w_pending_ar :: frame where
  "w_pending_ar = \<lparr>columns = [''Claim No'', ''AR Balance''],
     rows = [[(''Claim No'', Num 3), (''AR Balance'', Num 50)]]\<rparr>"

section \<open>Text helpers\<close>

text \<open>
  Python's \<^verbatim>\<open>str.lower\<close>, \<^verbatim>\<open>str.strip\<close>, \<^verbatim>\<open>a in b\<close> and \<^verbatim>\<open>str.endswith\<close> on byte
  strings: letters A to Z are lowered and the ASCII white space is stripped (Python also
  lowers and strips characters beyond ASCII, which this model leaves alone).
\<close>

fun lower_char :: "char \<Rightarrow> char" where
  "lower_char (Char b0 b1 b2 b3 b4 b5 b6 b7) =
     (let n = (of_char (Char b0 b1 b2 b3 b4 b5 b6 b7) :: nat)
      in if 65 \<le> n \<and> n \<le> 90 then Char b0 b1 b2 b3 b4 True b6 b7
         else Char b0 b1 b2 b3 b4 b5 b6 b7)"

definition lower :: "string \<Rightarrow> string" where
  "lower s = map lower_char s"

definition is_space :: "char \<Rightarrow> bool" where
  "is_space c = (let n = (of_char c :: nat) in (9 \<le> n \<and> n \<le> 13) \<or> (28 \<le> n \<and> n \<le> 32))"

definition strip :: "string \<Rightarrow> string" where
  "strip s = rev (dropWhile is_space (rev (dropWhile is_space s)))"

fun contains :: "string \<Rightarrow> string \<Rightarrow> bool" where
  "contains needle [] = (needle = [])"
| "contains needle (c # s) = (prefix needle (c # s) \<or> contains needle s)"

definition endswith :: "string \<Rightarrow> string \<Rightarrow> bool" where
  "endswith s sfx = prefix (rev sfx) (rev s)"

section \<open>Header reconciler (ETL.py and mapping.py)\<close>

text \<open>
  The canonical mappings of \<^verbatim>\<open>ETL.py\<close> (lines 157 to 200): per sheet role, the vendor
  headers and their canonical names, in the order they are declared.
\<close>

type_synonym mapping = "(string \<times> string) list"

definition charges_mapping :: mapping where
  "charges_mapping =
     [(''Account Num'', ''Claim No''), (''Svc Date'', ''DOS''),
      (''Batch Date'', ''Charge Entry Date''), (''Amount'', ''Billed Amount''),
      (''Responsible Provider'', ''Provider Name''), (''Insurance'', ''Payer/Insurance''),
      (''Group'', ''Facility Name''), (''FC'', ''Financial Class'')]"

definition payment_mapping :: mapping where
  "payment_mapping =
     [(''Account Num'', ''Claim No''), (''Svc Date'', ''DOS''), (''Amount'', ''Paid Amount''),
      (''Insurance'', ''Payer/Insurance''), (''Responsible Provider'', ''Provider Name''),
      (''Batch Date'', ''Payment Entry Date''), (''Group'', ''Facility Name''),
      (''FC'', ''Financial Class'')]"

definition adjustment_mapping :: mapping where
  "adjustment_mapping =
     [(''Account Num'', ''Claim No''), (''Svc Date'', ''DOS''), (''Amount'', ''Adjustment Amount''),
      (''Description'', ''Adjustment Description''), (''Insurance'', ''Payer/Insurance''),
      (''Responsible Provider'', ''Provider Name''), (''Batch Date'', ''Adjustment Entry Date''),
      (''Group'', ''Facility Name''), (''FC'', ''Financial Class'')]"

definition pending_ar_mapping :: mapping where
  "pending_ar_mapping =
     [(''Account Num'', ''Claim No''), (''Reg Date'', ''Charge Entry Date''),
      (''Amount'', ''AR Balance''), (''Aging Bucket'', ''Aging Range''),
      (''Rcvbl Status'', ''Financial Status''), (''Insurance'', ''Payer/Insurance''),
      (''Responsible Provider'', ''Provider Name''), (''Group'', ''Facility Name''),
      (''FC'', ''Financial Class'')]"

definition sheet_mappings :: "(string \<times> mapping) list" where
  "sheet_mappings =
     [(''Charges'', charges_mapping), (''Payment'', payment_mapping),
      (''Adjustment'', adjustment_mapping), (''Pending AR'', pending_ar_mapping)]"

text \<open>The vendor headers of all four mappings.\<close>

definition vendor_keys :: "string list" where
  "vendor_keys = remdups (concat (map (\<lambda>(role, mapping). map fst mapping) sheet_mappings))"

text \<open>
  The similarity scorer is rapidfuzz's \<^verbatim>\<open>fuzz.token_sort_ratio\<close>, a library function: the
  reconciler takes it as a parameter, a score on the scale 0 to 100 for a pair of strings.

  \<^verbatim>\<open>process.extractOne(query, choices, scorer=...)\<close> of rapidfuzz without a cutoff: the
  choice of the highest score, the first one among equals, with its score and its index;
  \<^verbatim>\<open>None\<close> when there is no choice.
\<close>

type_synonym scorer = "string \<Rightarrow> string \<Rightarrow> rat"

fun extractOne_from ::
  "scorer \<Rightarrow> string \<Rightarrow> string \<times> rat \<times> nat \<Rightarrow> nat \<Rightarrow> string list \<Rightarrow> string \<times> rat \<times> nat" where
  "extractOne_from sc query best i [] = best"
| "extractOne_from sc query (m, s, j) i (k # ks) =
     (if s < sc query k then extractOne_from sc query (k, sc query k, i) (Suc i) ks
      else extractOne_from sc query (m, s, j) (Suc i) ks)"

definition extractOne :: "scorer \<Rightarrow> string \<Rightarrow> string list \<Rightarrow> (string \<times> rat \<times> nat) option" where
  "extractOne sc query choices =
     (case choices of
        [] \<Rightarrow> None
      | k # ks \<Rightarrow> Some (extractOne_from sc query (k, sc query k, 0) 1 ks))"

text \<open>
  \<^verbatim>\<open>fuzzy_match_header\<close> of ETL.py (lines 203 to 207). Unpacking the \<^verbatim>\<open>None\<close> that
  \<^verbatim>\<open>extractOne\<close> returns for an empty key list raises a TypeError.
\<close>

definition fuzzy_match_header :: "scorer \<Rightarrow> string \<Rightarrow> string list \<Rightarrow> rat \<Rightarrow> error + string option" where
  "fuzzy_match_header sc col_name mapping_keys score_cutoff =
     (case extractOne sc col_name mapping_keys of
        None \<Rightarrow> Inl (TypeError ''cannot unpack non-iterable NoneType object'')
      | Some (match, score, _) \<Rightarrow> Inr (if score_cutoff \<le> score then Some match else None))"

text \<open>
  The body of the loop of \<^verbatim>\<open>normalize_headers\<close> (ETL.py, lines 213 and 214) for one
  column: \<^verbatim>\<open>match_key = fuzzy_match_header(col, mapping.keys()) or col\<close>, where an empty
  string counts as false as \<^verbatim>\<open>None\<close> does, then \<^verbatim>\<open>mapping.get(match_key, col)\<close>.
  The cutoff, which the source leaves at its default 85, is a parameter here.
\<close>

definition header_name :: "scorer \<Rightarrow> rat \<Rightarrow> mapping \<Rightarrow> string \<Rightarrow> error + string" where
  "header_name sc score_cutoff mapping col =
     (case fuzzy_match_header sc col (map fst mapping) score_cutoff of
        Inl e \<Rightarrow> Inl e
      | Inr r \<Rightarrow>
          (let match_key = (case r of None \<Rightarrow> col | Some m \<Rightarrow> if m = [] then col else m)
           in Inr (case map_of mapping match_key of None \<Rightarrow> col | Some canonical \<Rightarrow> canonical)))"

fun header_names :: "scorer \<Rightarrow> rat \<Rightarrow> mapping \<Rightarrow> string list \<Rightarrow> error + string list" where
  "header_names sc score_cutoff mapping [] = Inr []"
| "header_names sc score_cutoff mapping (col # cols) =
     (case header_name sc score_cutoff mapping col of
        Inl e \<Rightarrow> Inl e
      | Inr n \<Rightarrow>
          (case header_names sc score_cutoff mapping cols of
             Inl e \<Rightarrow> Inl e
           | Inr ns \<Rightarrow> Inr (n # ns)))"

text \<open>\<^verbatim>\<open>df.rename(columns=new_cols)\<close>, the new labels given in column order.\<close>

definition rename_columns :: "frame \<Rightarrow> string list \<Rightarrow> frame" where
  "rename_columns df names =
     \<lparr>columns = names, rows = map (\<lambda>r. zip names (map snd r)) (rows df)\<rparr>"

definition normalize_headers_cutoff :: "scorer \<Rightarrow> rat \<Rightarrow> frame \<Rightarrow> mapping \<Rightarrow> error + frame" where
  "normalize_headers_cutoff sc score_cutoff df mapping =
     (case header_names sc score_cutoff mapping (columns df) of
        Inl e \<Rightarrow> Inl e
      | Inr names \<Rightarrow> Inr (rename_columns df names))"

text \<open>\<^verbatim>\<open>normalize_headers\<close> of ETL.py (lines 210 to 215), at the default cutoff.\<close>

definition normalize_headers :: "scorer \<Rightarrow> frame \<Rightarrow> mapping \<Rightarrow> error + frame" where
  "normalize_headers sc df mapping = normalize_headers_cutoff sc 85 df mapping"

text \<open>
  \<^verbatim>\<open>fuzzy_match_header\<close> of mapping.py (lines 51 to 57): a column that is a mapping key is
  returned before any score is computed.
\<close>

definition mapping_fuzzy_match_header ::
  "scorer \<Rightarrow> string \<Rightarrow> string list \<Rightarrow> rat \<Rightarrow> error + string option" where
  "mapping_fuzzy_match_header sc col_name mapping_keys score_cutoff =
     (if col_name \<in> set mapping_keys then Inr (Some col_name)
      else
        (case extractOne sc col_name mapping_keys of
           None \<Rightarrow> Inl (TypeError ''cannot unpack non-iterable NoneType object'')
         | Some (match, score, _) \<Rightarrow> Inr (if score_cutoff \<le> score then Some match else None)))"

text \<open>
  The body of the loop of \<^verbatim>\<open>normalize_sheet_headers\<close> of mapping.py (lines 63 to 68) for
  one column.
\<close>

definition mapping_header_name :: "scorer \<Rightarrow> rat \<Rightarrow> mapping \<Rightarrow> string \<Rightarrow> error + string" where
  "mapping_header_name sc score_cutoff mapping col =
     (case mapping_fuzzy_match_header sc col (map fst mapping) score_cutoff of
        Inl e \<Rightarrow> Inl e
      | Inr None \<Rightarrow> Inr col
      | Inr (Some matched_key) \<Rightarrow>
          (if matched_key \<noteq> [] \<and> matched_key \<in> set (map fst mapping)
           then Inr (case map_of mapping matched_key of None \<Rightarrow> col | Some canonical \<Rightarrow> canonical)
           else Inr col))"

text \<open>
  A model of \<^verbatim>\<open>fuzz.token_sort_ratio\<close> as rapidfuzz documents it, for the examples: the
  strings are split at white space, their tokens sorted and joined by one space, and the score
  is 100 times the share of characters on a longest common subsequence,
  \<open>2 * lcs / (length a + length b)\<close>.
\<close>

fun lcs_step :: "char \<Rightarrow> string \<Rightarrow> nat list \<Rightarrow> nat \<Rightarrow> nat list" where
  "lcs_step x (y # ys) (d # u # prev) left =
     (let v = (if x = y then d + 1 else max u left) in v # lcs_step x ys (u # prev) v)"
| "lcs_step x ys prev left = []"

definition lcs_length :: "string \<Rightarrow> string \<Rightarrow> nat" where
  "lcs_length xs ys =
     last (foldl (\<lambda>prev x. 0 # lcs_step x ys prev 0) (replicate (length ys + 1) 0) xs)"

definition ratio :: scorer where
  "ratio a b =
     (if length a + length b = 0 then 100
      else 100 * of_nat (2 * lcs_length a b) / of_nat (length a + length b))"

fun split_ws :: "string \<Rightarrow> string \<Rightarrow> string list" where
  "split_ws tok [] = (if tok = [] then [] else [rev tok])"
| "split_ws tok (c # s) =
     (if is_space c then (if tok = [] then split_ws [] s else rev tok # split_ws [] s)
      else split_ws (c # tok) s)"

fun str_le :: "string \<Rightarrow> string \<Rightarrow> bool" where
  "str_le [] b = True"
| "str_le (x # a) [] = False"
| "str_le (x # a) (y # b) =
     ((of_char x :: nat) < of_char y \<or> ((of_char x :: nat) = of_char y \<and> str_le a b))"

fun insert_token :: "string \<Rightarrow> string list \<Rightarrow> string list" where
  "insert_token t [] = [t]"
| "insert_token t (u # us) = (if str_le t u then t # u # us else u # insert_token t us)"

fun join_tokens :: "string list \<Rightarrow> string" where
  "join_tokens [] = []"
| "join_tokens [t] = t"
| "join_tokens (t # u # us) = t @ '' '' @ join_tokens (u # us)"

definition sorted_tokens :: "string \<Rightarrow> string" where
  "sorted_tokens s = join_tokens (foldr insert_token (split_ws [] s) [])"

definition token_sort_ratio :: scorer where
  "token_sort_ratio a b = ratio (sorted_tokens a) (sorted_tokens b)"

section \<open>Sheet classifier\<close>

text \<open>
  The loops of \<^verbatim>\<open>process_single_file\<close> over the sheet names and the roles (ETL.py, lines
  286 to 295). The inner loop stops at the first role whose lower-cased name is part of the
  lower-cased sheet name; the outer loop stores the sheet under that role, over whatever an
  earlier sheet stored there. The dictionary is keyed by role and holds the name of the
  sheet whose frame it holds in the source.
\<close>

definition first_role :: "string \<Rightarrow> string option" where
  "first_role sheet = find (\<lambda>key. contains (lower key) (lower sheet)) (map fst sheet_mappings)"

fun select_sheets :: "(string \<rightharpoonup> string) \<Rightarrow> string list \<Rightarrow> (string \<rightharpoonup> string)" where
  "select_sheets processed [] = processed"
| "select_sheets processed (sheet # sheet_names) =
     (case first_role sheet of
        None \<Rightarrow> select_sheets processed sheet_names
      | Some key \<Rightarrow> select_sheets (processed(key \<mapsto> sheet)) sheet_names)"

text \<open>\<^verbatim>\<open>find_sheet\<close> of \<^verbatim>\<open>final_2.py\<close> (lines 26 to 31).\<close>

definition find_sheet :: "string list \<Rightarrow> string \<Rightarrow> string option" where
  "find_sheet sheets keyword = find (\<lambda>sheet. contains (lower keyword) (lower sheet)) sheets"

text \<open>An example sheet with raw vendor headers, and a workbook with two Charges sheets.\<close>

definition w_raw :: frame where
  "w_raw = \<lparr>columns = [''Account Number'', ''Patient Name'', ''Provider ResponsiXYZ'',
                       ''Provider ResponsXYZW''],
     rows = [[(''Account Number'', Num 7), (''Patient Name'', Str ''Ann''),
              (''Provider ResponsiXYZ'', Str ''Dr A''), (''Provider ResponsXYZW'', Str ''Dr B'')]]\<rparr>"

definition cx_sheet_names :: "string list" where
  "cx_sheet_names =
     [''Charges Q1'', ''Charges Q2'', ''Payment Q1'', ''Adjustment Q1'', ''Pending AR Q1'']"

section \<open>Final column names (ETL.py, make_unique_columns and lines 308 to 309)\<close>

text \<open>The decimal digits of a number, as an f-string prints it.\<close>

fun str_nat :: "nat \<Rightarrow> string" where
  "str_nat n =
     (if n < 10 then [''0123456789'' ! n]
      else str_nat (n div 10) @ [''0123456789'' ! (n mod 10)])"

text \<open>
  \<^verbatim>\<open>make_unique_columns\<close> (ETL.py, lines 225 to 235): the loop over the labels, with the
  dictionary \<^verbatim>\<open>seen\<close> of the labels met so far and how often each was repeated.
\<close>

fun make_unique_loop :: "(string \<rightharpoonup> nat) \<Rightarrow> string list \<Rightarrow> string list" where
  "make_unique_loop seen [] = []"
| "make_unique_loop seen (c # cols) =
     (case seen c of
        None \<Rightarrow> c # make_unique_loop (seen(c \<mapsto> 0)) cols
      | Some n \<Rightarrow> (c @ ''_'' @ str_nat (n + 1)) # make_unique_loop (seen(c \<mapsto> n + 1)) cols)"

definition make_unique_columns :: "string list \<Rightarrow> string list" where
  "make_unique_columns cols = make_unique_loop Map.empty cols"

text \<open>
  Lines 308 and 309 of \<^verbatim>\<open>process_single_file\<close>: the labels are lower-cased and stripped,
  then made unique.
\<close>

definition final_columns :: "string list \<Rightarrow> string list" where
  "final_columns cols = make_unique_columns (map (\<lambda>c. strip (lower c)) cols)"

section \<open>KPI engine (ETL.py, calculate_kpis)\<close>

text \<open>
  What pandas, numpy and Python compute on single values is a parameter of the model, a
  record of functions: how a text is read as a number, the quotient, product, difference
  and sum of float64 and int64 values, \<^verbatim>\<open>round\<close> to a number of decimals, whether the
  difference of two date columns and its \<^verbatim>\<open>.dt.days\<close> are accepted and the days between
  two dates, whether \<^verbatim>\<open>df.apply\<close> over the rows is accepted, whether the text of a row's
  Aging Range holds \<^verbatim>\<open>90\<close>, and whether the text of a cell holds \<^verbatim>\<open>denied\<close>. What
  \<^verbatim>\<open>calculate_kpis\<close> does with these values is modelled below: which columns it reads and
  writes, in which order, where zero and missing values are replaced, and where an
  exception ends it.
\<close>

record library =
  parse :: "string \<Rightarrow> cell"
  num_div :: "cell \<Rightarrow> cell \<Rightarrow> cell"
  num_mul :: "cell \<Rightarrow> cell \<Rightarrow> cell"
  num_sub :: "cell \<Rightarrow> cell \<Rightarrow> cell"
  num_sum :: "cell list \<Rightarrow> cell"
  num_round :: "nat \<Rightarrow> cell \<Rightarrow> cell"
  lag_error :: "frame \<Rightarrow> string \<Rightarrow> string \<Rightarrow> error option"
  day_diff :: "cell \<Rightarrow> cell \<Rightarrow> cell"
  apply_error :: "frame \<Rightarrow> error option"
  aging_flag :: "row \<Rightarrow> bool"
  denied_flag :: "cell \<Rightarrow> bool"

text \<open>
  \<^verbatim>\<open>pd.to_numeric(..., errors="coerce")\<close> on one cell: a number stays, a missing value
  stays missing, a text is read by the library and is missing when it is no number.
  \<^verbatim>\<open>fillna\<close> replaces the missing value, \<^verbatim>\<open>replace(0, pd.NA)\<close> makes a zero missing.
\<close>

definition to_numeric :: "library \<Rightarrow> cell \<Rightarrow> cell" where
  "to_numeric lib v = (case v of Str s \<Rightarrow> parse lib s | _ \<Rightarrow> v)"

definition fillna :: "cell \<Rightarrow> cell \<Rightarrow> cell" where
  "fillna d v = (if v = Null then d else v)"

definition numeric :: "library \<Rightarrow> cell \<Rightarrow> cell" where
  "numeric lib v = fillna (Num 0) (to_numeric lib v)"

definition replace_zero :: "cell \<Rightarrow> cell" where
  "replace_zero v = (if v = Num 0 then Null else v)"

text \<open>
  An operation with a missing operand gives a missing value; on other operands the library
  decides. The truth value Python gives a number: zero is false, every other number, NaN
  too, is true.
\<close>

definition na_div :: "library \<Rightarrow> cell \<Rightarrow> cell \<Rightarrow> cell" where
  "na_div lib a b = (if a = Null \<or> b = Null then Null else num_div lib a b)"

definition na_mul :: "library \<Rightarrow> cell \<Rightarrow> cell \<Rightarrow> cell" where
  "na_mul lib a b = (if a = Null \<or> b = Null then Null else num_mul lib a b)"

definition na_sub :: "library \<Rightarrow> cell \<Rightarrow> cell \<Rightarrow> cell" where
  "na_sub lib a b = (if a = Null \<or> b = Null then Null else num_sub lib a b)"

definition na_round :: "library \<Rightarrow> nat \<Rightarrow> cell \<Rightarrow> cell" where
  "na_round lib n v = (if v = Null then Null else num_round lib n v)"

definition truthy :: "cell \<Rightarrow> bool" where
  "truthy v = (v \<noteq> Num 0)"

text \<open>
  \<^verbatim>\<open>df[name]\<close> as a list of cells, and the assignment \<^verbatim>\<open>df[name] = values\<close> of one value
  for each row, which overwrites every column of that label or appends a new column.
\<close>

definition column_values :: "frame \<Rightarrow> string \<Rightarrow> cell list" where
  "column_values df name = map (\<lambda>r. cell_at r name) (rows df)"

definition set_cell :: "row \<Rightarrow> string \<Rightarrow> cell \<Rightarrow> row" where
  "set_cell r name v =
     (if name \<in> fst ` set r then map (\<lambda>(c, old). if c = name then (c, v) else (c, old)) r
      else r @ [(name, v)])"

definition assign_column :: "frame \<Rightarrow> string \<Rightarrow> (row \<Rightarrow> cell) \<Rightarrow> frame" where
  "assign_column df name f =
     \<lparr>columns = (if name \<in> set (columns df) then columns df else columns df @ [name]),
      rows = map (\<lambda>r. set_cell r name (f r)) (rows df)\<rparr>"

text \<open>
  Lines 239 to 241: each amount column that is present is made numeric, a missing value
  becoming 0. A label that names two columns makes \<^verbatim>\<open>df[col]\<close> a frame, which
  \<^verbatim>\<open>pd.to_numeric\<close> rejects with a TypeError.
\<close>

definition coerce_column :: "library \<Rightarrow> frame \<Rightarrow> string \<Rightarrow> error + frame" where
  "coerce_column lib df col =
     (if col \<in> set (columns df)
      then
        (if count_list (columns df) col = 1
         then Inr (assign_column df col (\<lambda>r. numeric lib (cell_at r col)))
         else Inl (TypeError ''arg must be a list, tuple, 1-d array, or Series''))
      else Inr df)"

fun coerce_columns :: "library \<Rightarrow> frame \<Rightarrow> string list \<Rightarrow> error + frame" where
  "coerce_columns lib df [] = Inr df"
| "coerce_columns lib df (col # cols) =
     (case coerce_column lib df col of
        Inl e \<Rightarrow> Inl e
      | Inr df' \<Rightarrow> coerce_columns lib df' cols)"

text \<open>
  Lines 243 to 247: \<^verbatim>\<open>df[name] = (df[later] - df[earlier]).dt.days\<close> when both columns are
  there. pandas raises when the columns are no dates.
\<close>

definition lag_block :: "library \<Rightarrow> frame \<Rightarrow> string \<Rightarrow> string \<Rightarrow> string \<Rightarrow> error + frame" where
  "lag_block lib df later earlier name =
     (if earlier \<in> set (columns df) \<and> later \<in> set (columns df)
      then
        (case lag_error lib df later earlier of
           Some e \<Rightarrow> Inl e
         | None \<Rightarrow>
             Inr (assign_column df name (\<lambda>r. day_diff lib (cell_at r later) (cell_at r earlier))))
      else Inr df)"

text \<open>
  Lines 249 to 252, the Gross Collection Ratio of one row:
  \<^verbatim>\<open>((paid / billed.replace(0, pd.NA)) * 100).fillna(0).round(2)\<close>.
\<close>

definition gcr :: "library \<Rightarrow> cell \<Rightarrow> cell \<Rightarrow> cell" where
  "gcr lib paid billed =
     na_round lib 2 (fillna (Num 0) (na_mul lib (na_div lib paid (replace_zero billed)) (Num 100)))"

definition gcr_block :: "library \<Rightarrow> frame \<Rightarrow> frame" where
  "gcr_block lib df =
     (if ''Paid Amount'' \<in> set (columns df) \<and> ''Billed Amount'' \<in> set (columns df)
      then assign_column df ''GCR (%)''
             (\<lambda>r. gcr lib (numeric lib (cell_at r ''Paid Amount''))
                          (numeric lib (cell_at r ''Billed Amount'')))
      else df)"

text \<open>Lines 254 to 260: the net and the contractual ratio, by one formula.\<close>

definition ncr :: "library \<Rightarrow> cell \<Rightarrow> cell \<Rightarrow> cell \<Rightarrow> cell" where
  "ncr lib paid billed adj =
     (let collectible = replace_zero (na_sub lib billed adj)
      in na_round lib 2 (fillna (Num 0) (na_mul lib (na_div lib paid collectible) (Num 100))))"

definition ncr_row :: "library \<Rightarrow> row \<Rightarrow> cell" where
  "ncr_row lib r =
     ncr lib (numeric lib (cell_at r ''Paid Amount'')) (numeric lib (cell_at r ''Billed Amount''))
       (numeric lib (cell_at r ''Adjustment Amount''))"

definition ncr_block :: "library \<Rightarrow> frame \<Rightarrow> frame" where
  "ncr_block lib df =
     (if ''Paid Amount'' \<in> set (columns df) \<and> ''Billed Amount'' \<in> set (columns df)
         \<and> ''Adjustment Amount'' \<in> set (columns df)
      then assign_column (assign_column df ''NCR (%)'' (ncr_row lib)) ''CCR (%)'' (ncr_row lib)
      else df)"

text \<open>
  Lines 262 to 265, AR Days: the sum of Billed Amount over the table, a thirtieth of it
  when the sum is not zero, and in each row AR Balance divided by that thirtieth and
  rounded to one decimal; the column is all missing when the sum, or its thirtieth, is
  zero.
\<close>

definition ar_days_block :: "library \<Rightarrow> frame \<Rightarrow> frame" where
  "ar_days_block lib df =
     (if ''AR Balance'' \<in> set (columns df) \<and> ''Billed Amount'' \<in> set (columns df)
      then
        (let billed_sum = num_sum lib (column_values df ''Billed Amount'');
             avg_daily_charges =
               (if truthy billed_sum then Some (na_div lib billed_sum (Num 30)) else None)
         in assign_column df ''AR Days''
              (\<lambda>r. case avg_daily_charges of
                      None \<Rightarrow> Null
                    | Some a \<Rightarrow>
                        if truthy a then na_round lib 1 (na_div lib (cell_at r ''AR Balance'') a)
                        else Null))
      else df)"

text \<open>
  Lines 267 to 271: the AR Balance of the rows whose Aging Range mentions 90, and 0 in the
  other rows.
\<close>

definition aging_block :: "library \<Rightarrow> frame \<Rightarrow> error + frame" where
  "aging_block lib df =
     (if ''Aging Range'' \<in> set (columns df) \<and> ''AR Balance'' \<in> set (columns df)
      then
        (case apply_error lib df of
           Some e \<Rightarrow> Inl e
         | None \<Rightarrow>
             Inr (assign_column df ''90+ AR Days (%)''
                    (\<lambda>r. if aging_flag lib r then cell_at r ''AR Balance'' else Num 0)))
      else Inr df)"

text \<open>
  Lines 273 to 276: the share of the rows whose Financial Status mentions a denial, one
  value for the whole column. With two columns of that label \<^verbatim>\<open>df["Financial Status"]\<close>
  is a frame, which has no \<^verbatim>\<open>.str\<close>.
\<close>

definition denial_rate :: "library \<Rightarrow> cell list \<Rightarrow> cell" where
  "denial_rate lib statuses =
     (let total_claims = length statuses;
          denied_claims = length (filter (denied_flag lib) statuses)
      in if total_claims = 0 then Null
         else na_round lib 2
                (na_mul lib (na_div lib (Num (of_nat denied_claims)) (Num (of_nat total_claims)))
                   (Num 100)))"

definition denial_block :: "library \<Rightarrow> frame \<Rightarrow> error + frame" where
  "denial_block lib df =
     (if ''Financial Status'' \<in> set (columns df)
      then
        (if count_list (columns df) ''Financial Status'' = 1
         then Inr (assign_column df ''Denial Rate (%)''
                     (\<lambda>r. denial_rate lib (column_values df ''Financial Status'')))
         else Inl (AttributeError ''DataFrame object has no attribute str''))
      else Inr df)"

text \<open>\<^verbatim>\<open>calculate_kpis\<close> (ETL.py, lines 238 to 278), the blocks in the order of the source.\<close>

definition calculate_kpis :: "library \<Rightarrow> frame \<Rightarrow> error + frame" where
  "calculate_kpis lib df =
     (case coerce_columns lib df
             [''Paid Amount'', ''Billed Amount'', ''Adjustment Amount'', ''AR Balance''] of
        Inl e \<Rightarrow> Inl e
      | Inr df1 \<Rightarrow>
     (case lag_block lib df1 ''Charge Entry Date'' ''DOS'' ''Charge Lag (days)'' of
        Inl e \<Rightarrow> Inl e
      | Inr df2 \<Rightarrow>
     (case lag_block lib df2 ''Payment Entry Date'' ''Charge Entry Date'' ''Billing Lag (days)'' of
        Inl e \<Rightarrow> Inl e
      | Inr df3 \<Rightarrow>
     (case aging_block lib (ar_days_block lib (ncr_block lib (gcr_block lib df3))) of
        Inl e \<Rightarrow> Inl e
      | Inr df4 \<Rightarrow> denial_block lib df4))))"

text \<open>
  Two frames that agree outside a set of labels: as many rows, every column of the first
  still in the second, and every label outside the set as often in the header and with the
  same cells.
\<close>

definition kept :: "string set \<Rightarrow> frame \<Rightarrow> frame \<Rightarrow> bool" where
  "kept L df df' =
     (length (rows df') = length (rows df) \<and>
      set (columns df) \<subseteq> set (columns df') \<and>
      (\<forall>c. c \<notin> L \<longrightarrow> count_list (columns df') c = count_list (columns df) c) \<and>
      (\<forall>i<length (rows df). \<forall>c. c \<notin> L \<longrightarrow> cell_at (rows df' ! i) c = cell_at (rows df ! i) c))"

text \<open>
  A library for the examples. Its arithmetic is exact on finite numbers, which is what
  float64 computes wherever the operands and the result are binary fractions of few digits,
  as all numbers of the examples are; a number divided by zero is an infinity, or no number
  for 0 / 0, and operands that are no finite numbers, which the examples do not have, give
  no number. It rounds as numpy does, a tie going to the even digit, and reads unsigned
  decimal integers out of texts. The example tables have no date, Aging Range or Financial
  Status column.
\<close>

definition round_half_even :: "rat \<Rightarrow> int" where
  "round_half_even x =
     (let f = \<lfloor>x\<rfloor>; d = x - of_int f
      in if d < 1 / 2 then f else if 1 / 2 < d then f + 1 else if even f then f else f + 1)"

definition round_to :: "nat \<Rightarrow> rat \<Rightarrow> rat" where
  "round_to n x = of_int (round_half_even (x * 10 ^ n)) / 10 ^ n"

definition is_digit :: "char \<Rightarrow> bool" where
  "is_digit c = (let n = (of_char c :: nat) in 48 \<le> n \<and> n \<le> 57)"

definition parse_digits :: "string \<Rightarrow> cell" where
  "parse_digits s =
     (if s \<noteq> [] \<and> list_all is_digit s
      then Num (of_nat (foldl (\<lambda>n c. 10 * n + (of_char c - 48)) 0 s))
      else Null)"

fun exact_div :: "cell \<Rightarrow> cell \<Rightarrow> cell" where
  "exact_div (Num a) (Num b) =
     (if b = 0 then (if a = 0 then Null else Inf (0 < a)) else Num (a / b))"
| "exact_div a b = Null"

fun exact_mul :: "cell \<Rightarrow> cell \<Rightarrow> cell" where
  "exact_mul (Num a) (Num b) = Num (a * b)"
| "exact_mul a b = Null"

fun exact_sub :: "cell \<Rightarrow> cell \<Rightarrow> cell" where
  "exact_sub (Num a) (Num b) = Num (a - b)"
| "exact_sub a b = Null"

fun exact_add :: "cell \<Rightarrow> cell \<Rightarrow> cell" where
  "exact_add (Num a) (Num b) = Num (a + b)"
| "exact_add a b = Null"

definition exact_sum :: "cell list \<Rightarrow> cell" where
  "exact_sum vs = foldl exact_add (Num 0) vs"

fun exact_round :: "nat \<Rightarrow> cell \<Rightarrow> cell" where
  "exact_round n (Num a) = Num (round_to n a)"
| "exact_round n v = v"

definition example_lib :: library where
  "example_lib =
     \<lparr>parse = parse_digits, num_div = exact_div, num_mul = exact_mul, num_sub = exact_sub,
      num_sum = exact_sum, num_round = exact_round,
      lag_error = (\<lambda>df later earlier. Some (AttributeError ''Can only use .dt accessor with datetimelike values'')),
      day_diff = (\<lambda>a b. Null),
      apply_error = (\<lambda>df. None),
      aging_flag = (\<lambda>r. case cell_at r ''Aging Range'' of Str s \<Rightarrow> contains ''90'' s | _ \<Rightarrow> False),
      denied_flag = (\<lambda>v. case v of Str s \<Rightarrow> contains ''denied'' (lower s) | _ \<Rightarrow> False)\<rparr>"

definition cx_ar :: frame where
  "cx_ar = \<lparr>columns = [''Claim No'', ''Billed Amount'', ''AR Balance''],
     rows = [[(''Claim No'', Num 1), (''Billed Amount'', Num 960), (''AR Balance'', Num 15)]]\<rparr>"

definition w_kpi :: frame where
  "w_kpi = \<lparr>columns = [''Claim No'', ''Billed Amount'', ''Paid Amount'', ''AR Balance''],
     rows = [[(''Claim No'', Num 1), (''Billed Amount'', Num 0), (''Paid Amount'', Num 50),
              (''AR Balance'', Num 16)],
             [(''Claim No'', Num 2), (''Billed Amount'', Null), (''Paid Amount'', Num 20),
              (''AR Balance'', Num 48)],
             [(''Claim No'', Num 3), (''Billed Amount'', Num 960), (''Paid Amount'', Num 240),
              (''AR Balance'', Str ''n/a'')]]\<rparr>"

section \<open>Run persistence and archive (ETL.py, process_single_file and process_files)\<close>

text \<open>
  A workbook of the intake directory, as far as persistence is concerned: its file name, what
  the in-memory stages of \<^verbatim>\<open>process_single_file\<close> (lines 284 to 309) make of it, the final
  frame or the exception raised on the way, and for how many attempts to move it another
  process holds it open, each such attempt raising a PermissionError.

  The world is what the run writes to, the CSV exports, the tables of the SQLite database,
  the archive directory and the seconds spent in \<^verbatim>\<open>time.sleep\<close>, and how its
  surroundings answer: the exception, if any, with which the file system refuses to write a
  CSV file of a given name or the database a table of a given name and frame, and whether a
  workbook that another process holds open can still be read, in which case the failed
  \<^verbatim>\<open>shutil.move\<close> has copied it into the archive before it fails to delete it.
\<close>

record workbook =
  file_name :: string
  outcome :: "error + frame"
  locked :: nat

record world =
  csv_files :: "string \<rightharpoonup> frame"
  db :: "string \<rightharpoonup> frame"
  archive :: "string list"
  slept :: rat
  csv_error :: "string \<Rightarrow> error option"
  db_error :: "string \<Rightarrow> frame \<Rightarrow> error option"
  move_leaves_copy :: bool

datatype result = Success nat string | Failure error

text \<open>\<^verbatim>\<open>os.path.splitext(name)[0]\<close>: the name without its last extension; leading dots are
  no extension.\<close>

definition splitext_stem :: "string \<Rightarrow> string" where
  "splitext_stem name =
     (if CHR ''.'' \<in> set name
      then
        (let stem = rev (tl (dropWhile (\<lambda>c. c \<noteq> CHR ''.'') (rev name)))
         in if list_all (\<lambda>c. c = CHR ''.'') stem then name else stem)
      else name)"

definition table_name :: "string \<Rightarrow> string" where
  "table_name run_id = ''claims_with_kpis_'' @ run_id"

text \<open>
  \<^verbatim>\<open>to_sql(name, conn, if_exists="replace", index=False)\<close> (line 317): pandas drops the
  table of that name, then creates it from the frame's column labels and fills it. SQLite
  compares column names without regard to the case of ASCII letters and refuses a name that
  is repeated; the old table is gone by then. Any other refusal leaves the database as it
  was.
\<close>

definition to_sql :: "frame \<Rightarrow> string \<Rightarrow> world \<Rightarrow> error option \<times> world" where
  "to_sql df name w =
     (if distinct (map lower (columns df))
      then (case db_error w name df of
              Some e \<Rightarrow> (Some e, w)
            | None \<Rightarrow> (None, w\<lparr>db := (db w)(name \<mapsto> df)\<rparr>))
      else (Some (DatabaseError ''duplicate column name''), w\<lparr>db := (db w)(name := None)\<rparr>))"

text \<open>
  \<^verbatim>\<open>process_single_file\<close> (ETL.py, lines 281 to 324) from line 311 on: the CSV export, the
  table written with \<^verbatim>\<open>if_exists="replace"\<close>, the pause of 0.2 seconds and the one call of
  \<^verbatim>\<open>shutil.move\<close>. Every exception is caught at line 323 and becomes a failure result.
\<close>

definition process_single_file :: "workbook \<Rightarrow> string \<Rightarrow> world \<Rightarrow> result \<times> world" where
  "process_single_file f run_id w =
     (case outcome f of
        Inl e \<Rightarrow> (Failure e, w)
      | Inr merged \<Rightarrow>
          (let out_csv = splitext_stem (file_name f) @ ''_with_kpis.csv''
           in case csv_error w out_csv of
                Some e \<Rightarrow> (Failure e, w)
              | None \<Rightarrow>
                  (case to_sql merged (table_name run_id)
                          (w\<lparr>csv_files := (csv_files w)(out_csv \<mapsto> merged)\<rparr>) of
                     (Some e, w2) \<Rightarrow> (Failure e, w2)
                   | (None, w2) \<Rightarrow>
                       (let w3 = w2\<lparr>slept := slept w2 + 1 / 5\<rparr>
                        in if 0 < locked f
                           then (Failure (PermissionError (file_name f)),
                                 if move_leaves_copy w3
                                 then w3\<lparr>archive := archive w3 @ [file_name f]\<rparr> else w3)
                           else (Success (length (rows merged)) out_csv,
                                 w3\<lparr>archive := archive w3 @ [file_name f]\<rparr>)))))"

text \<open>
  The loop of \<^verbatim>\<open>process_files\<close> (ETL.py, lines 361 to 372) over the directory listing, with
  the run identifier fixed before the loop and the count of the files that succeeded.
\<close>

fun process_files_loop :: "workbook list \<Rightarrow> string \<Rightarrow> nat \<times> world \<Rightarrow> nat \<times> world" where
  "process_files_loop [] run_id (files_processed, w) = (files_processed, w)"
| "process_files_loop (f # fs) run_id (files_processed, w) =
     (if endswith (lower (file_name f)) ''.xlsx''
      then
        (case process_single_file f run_id w of
           (Success n out, w') \<Rightarrow> process_files_loop fs run_id (files_processed + 1, w')
         | (Failure e, w') \<Rightarrow> process_files_loop fs run_id (files_processed, w'))
      else process_files_loop fs run_id (files_processed, w))"

definition process_files :: "workbook list \<Rightarrow> string \<Rightarrow> world \<Rightarrow> nat \<times> world" where
  "process_files files run_id w = process_files_loop files run_id (0, w)"

text \<open>
  The archive loop of \<^verbatim>\<open>final_2.py\<close> (lines 113 to 122): up to three attempts, a second of sleep
  after each attempt that finds the file locked, and the file counted as processed (line 127)
  whether or not it was moved.
\<close>

fun archive_attempts :: "nat list \<Rightarrow> nat \<Rightarrow> nat \<Rightarrow> bool \<times> nat" where
  "archive_attempts [] lock secs = (False, secs)"
| "archive_attempts (attempt # rest) lock secs =
     (if attempt < lock then archive_attempts rest lock (secs + 1) else (True, secs))"

definition final_2_archive :: "nat \<Rightarrow> nat \<Rightarrow> bool \<times> nat \<times> nat" where
  "final_2_archive lock files_processed =
     (case archive_attempts [0, 1, 2] lock 0 of
        (moved, secs) \<Rightarrow> (moved, secs, files_processed + 1))"

text \<open>
  A world in which nothing is written yet, no write is refused and a workbook held open
  cannot be read, and a batch of three workbooks, the third of which is held open at its
  move.
\<close>

definition empty_world :: world where
  "empty_world = \<lparr>csv_files = Map.empty, db = Map.empty, archive = [], slept = 0,
     csv_error = (\<lambda>name. None), db_error = (\<lambda>name df. None), move_leaves_copy = False\<rparr>"

definition cx_files :: "workbook list" where
  "cx_files =
     [\<lparr>file_name = ''jan.xlsx'', outcome = Inr cx_charges, locked = 0\<rparr>,
      \<lparr>file_name = ''feb.xlsx'', outcome = Inr w_charges, locked = 0\<rparr>,
      \<lparr>file_name = ''mar.xlsx'', outcome = Inr w_kpi, locked = 1\<rparr>]"

section \<open>Merge engine: row count and column collisions\<close>

lemma suffixed_empty: "suffixed {} sfx = (\<lambda>c. c)"
  by (rule ext) (simp add: suffixed_def)

lemma merge_row_empty: "merge_row {} on_col x y = x @ filter (\<lambda>(c, v). c \<noteq> on_col) y"
  by (simp add: merge_row_def suffixed_empty case_prod_unfold)

lemma cell_at_filter:
  "P on_col \<Longrightarrow> cell_at (filter (\<lambda>(c, v). P c) y) on_col = cell_at y on_col"
  by (induction y) (auto simp: cell_at_def)

lemma key_values_drop_columns:
  "on_col \<notin> set names \<Longrightarrow> key_values (drop_columns df names) on_col = key_values df on_col"
  by (simp add: key_values_def drop_columns_def cell_at_filter)

lemma key_values_right_kept: "key_values (right_kept l r on_col) on_col = key_values r on_col"
  by (simp add: right_kept_def Let_def key_values_drop_columns)

lemma columns_right_kept:
  "columns (right_kept l r on_col) = filter (\<lambda>c. c \<notin> set (columns l) \<or> c = on_col) (columns r)"
proof -
  have "filter (\<lambda>c. c \<notin> set (columns l) \<or> c = on_col) (columns r) = columns r"
    if "filter (\<lambda>c. c \<in> set (columns l) \<and> c \<noteq> on_col) (columns r) = []"
    using that by (auto simp: filter_empty_conv filter_id_conv)
  moreover have "filter (\<lambda>c. c \<notin> set (filter (\<lambda>c. c \<in> set (columns l) \<and> c \<noteq> on_col) (columns r))) (columns r)
      = filter (\<lambda>c. c \<notin> set (columns l) \<or> c = on_col) (columns r)"
    by (rule filter_cong) auto
  ultimately show ?thesis
    by (simp add: right_kept_def Let_def drop_columns_def)
qed

lemma count_list_filter: "P k \<Longrightarrow> count_list (filter P xs) k = count_list xs k"
  by (induction xs) auto

lemma count_list_filter_out: "\<not> P k \<Longrightarrow> count_list (filter P xs) k = 0"
  by (induction xs) auto

lemma key_error_None:
  "key_error df on_col = None \<longleftrightarrow> count_list (columns df) on_col = 1"
  by (auto simp: key_error_def count_list_0_iff)

lemma merge_left_Inr:
  assumes "merge_left keys_ok l r on_col = Inr m"
  shows "count_list (columns l) on_col = 1" and "count_list (columns r) on_col = 1"
    and "m = \<lparr>columns =
                 map (suffixed (set (columns l) \<inter> set (columns r) - {on_col}) ''_x'') (columns l) @
                 map (suffixed (set (columns l) \<inter> set (columns r) - {on_col}) ''_y'')
                   (filter (\<lambda>c. c \<noteq> on_col) (columns r)),
               rows = concat (map (join_row (set (columns l) \<inter> set (columns r) - {on_col})
                                     on_col r) (rows l))\<rparr>"
proof -
  from assms have r: "key_error r on_col = None"
    by (auto simp: merge_left_def split: option.splits)
  with assms have l: "key_error l on_col = None"
    by (auto simp: merge_left_def split: option.splits)
  show "count_list (columns l) on_col = 1" and "count_list (columns r) on_col = 1"
    using l r by (simp_all add: key_error_None)
  show "m = \<lparr>columns =
                 map (suffixed (set (columns l) \<inter> set (columns r) - {on_col}) ''_x'') (columns l) @
                 map (suffixed (set (columns l) \<inter> set (columns r) - {on_col}) ''_y'')
                   (filter (\<lambda>c. c \<noteq> on_col) (columns r)),
               rows = concat (map (join_row (set (columns l) \<inter> set (columns r) - {on_col})
                                     on_col r) (rows l))\<rparr>"
    using assms l r by (auto simp: merge_left_def Let_def split: if_splits)
qed

lemma safe_merge_Inr:
  assumes "safe_merge keys_ok l r on_col = Inr m"
  shows "count_list (columns l) on_col = 1" and "count_list (columns r) on_col = 1"
    and "columns m = columns l @ filter (\<lambda>c. c \<notin> set (columns l)) (columns r)"
    and "rows m = concat (map (join_row {} on_col (right_kept l r on_col)) (rows l))"
proof -
  let ?r = "right_kept l r on_col"
  have ml: "merge_left keys_ok l ?r on_col = Inr m"
    using assms by (simp add: safe_merge_def right_kept_def Let_def)
  note a = merge_left_Inr [OF ml]
  show cl: "count_list (columns l) on_col = 1"
    by (rule a(1))
  then have inl: "on_col \<in> set (columns l)"
    by (metis count_list_0_iff zero_neq_one)
  show "count_list (columns r) on_col = 1"
    using a(2) by (simp add: columns_right_kept count_list_filter)
  have ov: "set (columns l) \<inter> set (columns ?r) - {on_col} = {}"
    by (auto simp: columns_right_kept)
  have cols: "filter (\<lambda>c. c \<noteq> on_col) (columns ?r) = filter (\<lambda>c. c \<notin> set (columns l)) (columns r)"
    unfolding columns_right_kept filter_filter using inl by (intro filter_cong) auto
  have m: "m = \<lparr>columns = columns l @ filter (\<lambda>c. c \<notin> set (columns l)) (columns r),
               rows = concat (map (join_row {} on_col ?r) (rows l))\<rparr>"
    using a(3) unfolding ov by (simp add: suffixed_empty cols)
  show "columns m = columns l @ filter (\<lambda>c. c \<notin> set (columns l)) (columns r)"
    and "rows m = concat (map (join_row {} on_col (right_kept l r on_col)) (rows l))"
    by (simp_all add: m)
qed

lemma count_list_map_filter:
  "count_list (map g rs) k = length (filter (\<lambda>y. g y = k) rs)"
  by (induction rs) auto

lemma join_row_length: "length (join_row ov on_col r x) = copies r on_col (cell_at x on_col)"
proof -
  have "length (matches on_col x (rows r)) = count_list (key_values r on_col) (cell_at x on_col)"
    by (simp add: matches_def key_values_def count_list_map_filter)
  then show ?thesis
    by (cases "matches on_col x (rows r)") (auto simp: join_row_def copies_def)
qed

lemma copies_right_kept: "copies (right_kept l r on_col) on_col k = copies r on_col k"
  by (simp add: copies_def key_values_right_kept)

lemma distinct_count_le_1: "distinct xs \<Longrightarrow> count_list xs k \<le> 1"
  by (induction xs) (auto simp: count_list_0_iff)

lemma copies_distinct:
  assumes "distinct (key_values r on_col)"
  shows "copies r on_col k = 1"
  using distinct_count_le_1 [OF assms, of k] by (simp add: copies_def)

lemma cell_at_append_other:
  assumes "on_col \<notin> fst ` set e"
  shows "cell_at (x @ e) on_col = cell_at x on_col"
proof -
  have "map_of e on_col = None"
    using assms by (simp add: map_of_eq_None_iff)
  then show ?thesis
    by (simp add: cell_at_def map_add_def split: option.splits)
qed

lemma join_row_key:
  assumes "out \<in> set (join_row {} on_col r x)"
  shows "cell_at out on_col = cell_at x on_col"
proof -
  from assms obtain y where "out = x @ filter (\<lambda>(c, v). c \<noteq> on_col) y"
    by (auto simp: join_row_def merge_row_empty split: list.splits)
  then show ?thesis
    by (auto intro: cell_at_append_other)
qed

lemma join_row_sum:
  "sum_list (map (\<lambda>out. g (cell_at out on_col)) (join_row {} on_col r x)) =
     copies r on_col (cell_at x on_col) * g (cell_at x on_col)"
proof -
  have eq: "map (\<lambda>out. g (cell_at out on_col)) (join_row {} on_col r x) =
          map (\<lambda>out. g (cell_at x on_col)) (join_row {} on_col r x)"
    by (rule map_cong) (simp_all add: join_row_key)
  show ?thesis
    unfolding eq by (simp add: sum_list_triv join_row_length)
qed

lemma concat_join_sum:
  "sum_list (map (\<lambda>out. g (cell_at out on_col)) (concat (map (join_row {} on_col r) xs))) =
     sum_list (map (\<lambda>x. copies r on_col (cell_at x on_col) * g (cell_at x on_col)) xs)"
  by (induction xs) (simp_all add: join_row_sum)

lemma safe_merge_sum:
  fixes g :: "cell \<Rightarrow> nat"
  assumes "safe_merge keys_ok l r on_col = Inr m"
  shows "sum_list (map (\<lambda>out. g (cell_at out on_col)) (rows m)) =
           sum_list (map (\<lambda>x. copies r on_col (cell_at x on_col) * g (cell_at x on_col)) (rows l))"
  unfolding safe_merge_Inr(4) [OF assms] concat_join_sum
  by (simp add: copies_right_kept)

lemma sum_list_ge_length:
  fixes f :: "'a \<Rightarrow> nat"
  shows "(\<And>x. x \<in> set xs \<Longrightarrow> 1 \<le> f x) \<Longrightarrow> length xs \<le> sum_list (map f xs)"
  by (induction xs) (auto simp: Suc_le_eq intro: add_strict_increasing)

lemma sum_list_ones:
  fixes f :: "'a \<Rightarrow> nat"
  shows "(\<And>x. x \<in> set xs \<Longrightarrow> f x = 1) \<Longrightarrow> sum_list (map f xs) = length xs"
  by (induction xs) auto

lemma merge_sheets_Inr:
  assumes "merge_sheets keys_ok charges payment adjustment pending_ar = Inr m"
  obtains m1 m2 where "safe_merge keys_ok charges payment ''Claim No'' = Inr m1"
    and "safe_merge keys_ok m1 adjustment ''Claim No'' = Inr m2"
    and "safe_merge keys_ok m2 pending_ar ''Claim No'' = Inr m"
  using assms by (auto simp: merge_sheets_def split: sum.splits)

text \<open>
  Claim C1, as the code has it. When the three joins return a frame, each Charges row is in
  it once for every combination of a Payment row, an Adjustment row and a Pending AR row of
  its claim identifier, a sheet without such a row counting as one. So the frame has at
  least as many rows as Charges, and exactly as many when no claim identifier is repeated
  within Payment, within Adjustment or within Pending AR.
\<close>

theorem merge_row_count:
  assumes "merge_sheets keys_ok charges payment adjustment pending_ar = Inr m"
  shows "length (rows m) =
           sum_list (map (\<lambda>x. copies payment ''Claim No'' (cell_at x ''Claim No'') *
                                copies adjustment ''Claim No'' (cell_at x ''Claim No'') *
                                copies pending_ar ''Claim No'' (cell_at x ''Claim No''))
                      (rows charges)) \<and>
         length (rows charges) \<le> length (rows m) \<and>
         (distinct (key_values payment ''Claim No'') \<and>
          distinct (key_values adjustment ''Claim No'') \<and>
          distinct (key_values pending_ar ''Claim No'')
          \<longrightarrow> length (rows m) = length (rows charges))"
proof -
  let ?k = "''Claim No''"
  let ?f = "\<lambda>x. copies payment ?k (cell_at x ?k) * copies adjustment ?k (cell_at x ?k) *
                 copies pending_ar ?k (cell_at x ?k)"
  from assms obtain m1 m2 where m1: "safe_merge keys_ok charges payment ?k = Inr m1"
    and m2: "safe_merge keys_ok m1 adjustment ?k = Inr m2"
    and m3: "safe_merge keys_ok m2 pending_ar ?k = Inr m"
    by (rule merge_sheets_Inr)
  have "length (rows m) = sum_list (map (\<lambda>out. (\<lambda>k. 1::nat) (cell_at out ?k)) (rows m))"
    by (simp add: sum_list_triv)
  also have "\<dots> = sum_list (map (\<lambda>x. copies pending_ar ?k (cell_at x ?k)) (rows m2))"
    using safe_merge_sum [OF m3, of "\<lambda>k. 1"] by simp
  also have "\<dots> = sum_list (map (\<lambda>x. copies adjustment ?k (cell_at x ?k) *
                      copies pending_ar ?k (cell_at x ?k)) (rows m1))"
    using safe_merge_sum [OF m2, of "\<lambda>k. copies pending_ar ?k k"] by simp
  also have "\<dots> = sum_list (map ?f (rows charges))"
    using safe_merge_sum [OF m1, of "\<lambda>k. copies adjustment ?k k * copies pending_ar ?k k"]
    by (simp add: mult.assoc)
  finally have eq: "length (rows m) = sum_list (map ?f (rows charges))" .
  have ge: "length (rows charges) \<le> sum_list (map ?f (rows charges))"
    by (rule sum_list_ge_length) (simp add: copies_def)
  have one: "sum_list (map ?f (rows charges)) = length (rows charges)"
    if "distinct (key_values payment ?k)" "distinct (key_values adjustment ?k)"
       "distinct (key_values pending_ar ?k)"
    by (rule sum_list_ones) (simp add: copies_distinct that)
  show ?thesis
    using eq ge one by simp
qed

text \<open>
  Claim C1 as stated fails: one Charges row whose claim has two Payment rows is joined into
  two rows.
\<close>

theorem merge_row_count_counterexample:
  "merge_sheets keys_mergeable cx_charges cx_payment cx_adjustment cx_pending_ar =
     Inr \<lparr>columns = [''Claim No'', ''Billed Amount'', ''Paid Amount'', ''Adjustment Amount'', ''AR Balance''],
          rows = [[(''Claim No'', Num 1), (''Billed Amount'', Num 100), (''Paid Amount'', Num 40),
                   (''Adjustment Amount'', Null), (''AR Balance'', Null)],
                  [(''Claim No'', Num 1), (''Billed Amount'', Num 100), (''Paid Amount'', Num 60),
                   (''Adjustment Amount'', Null), (''AR Balance'', Null)]]\<rparr>
   \<and> length (rows cx_charges) = 1"
  by (simp add: merge_sheets_def safe_merge_def merge_left_def key_error_def key_values_def
      keys_mergeable_def has_text_def drop_columns_def join_row_def
      matches_def merge_row_def suffixed_def cell_at_def
      cx_charges_def cx_payment_def cx_adjustment_def cx_pending_ar_def)

lemmas w_frames = w_charges_def w_payment_def w_adjustment_def w_pending_ar_def

lemmas merge_defs = merge_sheets_def safe_merge_def merge_left_def key_error_def key_values_def
      keys_mergeable_def has_text_def drop_columns_def join_row_def
      matches_def merge_row_def suffixed_def cell_at_def

lemma w_merge:
  "merge_sheets keys_mergeable w_charges w_payment w_adjustment w_pending_ar =
     Inr \<lparr>columns = [''Claim No'', ''insurance'', ''Billed Amount'', ''Paid Amount'',
                      ''Adjustment Amount'', ''AR Balance''],
          rows = [[(''Claim No'', Num 1), (''insurance'', Str ''Aetna''), (''Billed Amount'', Num 100),
                   (''Paid Amount'', Num 80), (''Adjustment Amount'', Null), (''AR Balance'', Null)],
                  [(''Claim No'', Num 2), (''insurance'', Str ''Cigna''), (''Billed Amount'', Num 0),
                   (''Paid Amount'', Null), (''Adjustment Amount'', Num 5), (''AR Balance'', Null)]]\<rparr>"
  by (simp add: merge_defs w_frames)

theorem merge_row_count_witness:
  "length (rows w_charges) = 2 \<and>
   (\<exists>m. merge_sheets keys_mergeable w_charges w_payment w_adjustment w_pending_ar = Inr m \<and>
        length (rows m) = 2)"
  using merge_row_count [OF w_merge] w_merge
  by (auto simp: w_frames key_values_def cell_at_def)

lemma join_row_prefix:
  "out \<in> set (join_row {} on_col r x) \<Longrightarrow> \<exists>e. out = x @ e"
  by (auto simp: join_row_def merge_row_empty split: list.splits)

lemma safe_merge_prefix:
  assumes "safe_merge keys_ok l r on_col = Inr m" and "out \<in> set (rows m)"
  shows "\<exists>x\<in>set (rows l). \<exists>e. out = x @ e"
proof -
  from assms(2) obtain x where "x \<in> set (rows l)"
    and "out \<in> set (join_row {} on_col (right_kept l r on_col) x)"
    unfolding safe_merge_Inr(4) [OF assms(1)] by auto
  then show ?thesis
    using join_row_prefix by blast
qed

lemma cell_at_append:
  "c \<in> fst ` set x \<Longrightarrow> cell_at (x @ e) c = cell_at x c"
  by (auto simp: cell_at_def map_add_def split: option.splits dest: map_of_eq_None_iff [THEN iffD1])

text \<open>
  Claim C8. When the three joins return a frame, a column label of Charges (one that
  Payment carries too, or any other) is in it as often as Charges has it, so no column of
  Payment, Adjustment or Pending AR comes in under it, and every merged row starts with a
  whole Charges row and reads that row's value under the label.
\<close>

theorem charges_value_wins:
  assumes "merge_sheets keys_ok charges payment adjustment pending_ar = Inr m"
    and "wf_frame charges"
    and "c \<in> set (columns charges)"
  shows "count_list (columns m) c = count_list (columns charges) c \<and>
         (\<forall>out\<in>set (rows m). \<exists>x\<in>set (rows charges).
             take (length x) out = x \<and> cell_at out c = cell_at x c)"
proof -
  let ?k = "''Claim No''"
  from assms(1) obtain m1 m2 where m1: "safe_merge keys_ok charges payment ?k = Inr m1"
    and m2: "safe_merge keys_ok m1 adjustment ?k = Inr m2"
    and m3: "safe_merge keys_ok m2 pending_ar ?k = Inr m"
    by (rule merge_sheets_Inr)
  note k1 = safe_merge_Inr(3) [OF m1]
  note k2 = safe_merge_Inr(3) [OF m2]
  note k3 = safe_merge_Inr(3) [OF m3]
  have in1: "c \<in> set (columns m1)" using assms(3) k1 by simp
  have in2: "c \<in> set (columns m2)" using in1 k2 by simp
  have cnt: "count_list (columns m) c = count_list (columns charges) c"
    using assms(3) in1 in2 by (simp add: k1 k2 k3 count_list_filter_out)
  have row: "\<exists>x\<in>set (rows charges). take (length x) out = x \<and> cell_at out c = cell_at x c"
    if h: "out \<in> set (rows m)" for out
  proof -
    obtain x2 e3 where x2: "x2 \<in> set (rows m2)" "out = x2 @ e3"
      using safe_merge_prefix [OF m3 h] by blast
    obtain x1 e2 where x1: "x1 \<in> set (rows m1)" "x2 = x1 @ e2"
      using safe_merge_prefix [OF m2 x2(1)] by blast
    obtain x e1 where x: "x \<in> set (rows charges)" "x1 = x @ e1"
      using safe_merge_prefix [OF m1 x1(1)] by blast
    have out: "out = x @ (e1 @ e2 @ e3)"
      using x2 x1 x by simp
    have "map fst x = columns charges"
      using assms(2) x(1) by (simp add: wf_frame_def list_all_iff)
    then have "c \<in> fst ` set x"
      using assms(3) by (metis set_map)
    then have "cell_at out c = cell_at x c"
      unfolding out by (rule cell_at_append)
    moreover have "take (length x) out = x"
      unfolding out by simp
    ultimately show ?thesis
      using x(1) by blast
  qed
  show ?thesis
    using cnt row by blast
qed

theorem charges_value_wins_witness:
  "\<exists>m. merge_sheets keys_mergeable w_charges w_payment w_adjustment w_pending_ar = Inr m \<and>
       count_list (columns m) ''insurance'' = 1 \<and>
       map (\<lambda>out. cell_at out ''insurance'') (rows m) = [Str ''Aetna'', Str ''Cigna'']"
  using charges_value_wins [OF w_merge, of "''insurance''"] w_merge
  by (simp add: w_frames wf_frame_def cell_at_def)

section \<open>Header reconciler\<close>

lemma extractOne_from_best:
  assumes "extractOne_from sc q (m, sc q m, j) i ks = (k, s, j')"
  shows "k \<in> insert m (set ks) \<and> s = sc q k \<and> sc q m \<le> s \<and> (\<forall>k'\<in>set ks. sc q k' \<le> s)"
  using assms
proof (induction ks arbitrary: m j i)
  case Nil
  then show ?case by auto
next
  case (Cons a ks)
  show ?case
  proof (cases "sc q m < sc q a")
    case True
    with Cons.prems have "extractOne_from sc q (a, sc q a, i) (Suc i) ks = (k, s, j')"
      by simp
    from Cons.IH [OF this] True show ?thesis
      by auto
  next
    case False
    with Cons.prems have "extractOne_from sc q (m, sc q m, j) (Suc i) ks = (k, s, j')"
      by simp
    from Cons.IH [OF this] False show ?thesis
      by auto
  qed
qed

lemma extractOne_best:
  assumes "extractOne sc q ks = Some (k, s, j)"
  shows "k \<in> set ks \<and> s = sc q k \<and> (\<forall>k'\<in>set ks. sc q k' \<le> s)"
proof (cases ks)
  case Nil
  with assms show ?thesis by (simp add: extractOne_def)
next
  case (Cons a as)
  with assms have "extractOne_from sc q (a, sc q a, 0) 1 as = (k, s, j)"
    by (simp add: extractOne_def)
  from extractOne_from_best [OF this] Cons show ?thesis
    by auto
qed

lemma extractOne_Some:
  assumes "ks \<noteq> []"
  obtains k s j where "extractOne sc q ks = Some (k, s, j)"
proof -
  from assms obtain a as where "ks = a # as"
    by (cases ks) auto
  then have "extractOne sc q ks = Some (extractOne_from sc q (a, sc q a, 0) 1 as)"
    by (simp add: extractOne_def)
  then show thesis
    using that by (cases "extractOne_from sc q (a, sc q a, 0) 1 as") auto
qed

lemma map_of_key:
  "k \<in> fst ` set mapping \<Longrightarrow> \<exists>v. map_of mapping k = Some v"
  by (metis map_of_eq_None_iff not_Some_eq)

lemma header_name_cutoff:
  assumes "mapping \<noteq> []" and "[] \<notin> fst ` set mapping" and "cutoff \<le> sc col col"
  shows "\<exists>k\<in>fst ` set mapping. \<exists>n.
           header_name sc cutoff mapping col = Inr n \<and>
           (\<forall>k'\<in>fst ` set mapping. sc col k' \<le> sc col k) \<and>
           (cutoff \<le> sc col k \<longrightarrow> map_of mapping k = Some n) \<and>
           (sc col k < cutoff \<longrightarrow> n = col)"
proof -
  have "map fst mapping \<noteq> []"
    using assms(1) by simp
  then obtain k s j where ex: "extractOne sc col (map fst mapping) = Some (k, s, j)"
    by (rule extractOne_Some)
  from extractOne_best [OF this]
  have k: "k \<in> fst ` set mapping" and s: "s = sc col k"
    and best: "\<forall>k'\<in>fst ` set mapping. sc col k' \<le> sc col k"
    by auto
  obtain v where v: "map_of mapping k = Some v"
    using map_of_key [OF k] by blast
  have kne: "k \<noteq> []"
    using k assms(2) by metis
  show ?thesis
  proof (cases "cutoff \<le> sc col k")
    case True
    then have "header_name sc cutoff mapping col = Inr v"
      using ex s v kne by (simp add: header_name_def fuzzy_match_header_def)
    with True k best v show ?thesis
      by auto
  next
    case False
    have "col \<notin> fst ` set mapping"
      using best False assms(3) by force
    then have "map_of mapping col = None"
      by (simp add: map_of_eq_None_iff)
    then have "header_name sc cutoff mapping col = Inr col"
      using ex s False by (simp add: header_name_def fuzzy_match_header_def)
    with False k best show ?thesis
      by auto
  qed
qed

lemma header_names_nth:
  assumes "\<forall>c\<in>set cols. \<exists>n. header_name sc cutoff mapping c = Inr n"
  shows "\<exists>ns. header_names sc cutoff mapping cols = Inr ns \<and> length ns = length cols \<and>
           (\<forall>i<length cols. header_name sc cutoff mapping (cols ! i) = Inr (ns ! i))"
  using assms
proof (induction cols)
  case Nil
  then show ?case by simp
next
  case (Cons c cols)
  then obtain n where n: "header_name sc cutoff mapping c = Inr n"
    by auto
  from Cons obtain ns where ns: "header_names sc cutoff mapping cols = Inr ns"
    "length ns = length cols"
    "\<forall>i<length cols. header_name sc cutoff mapping (cols ! i) = Inr (ns ! i)"
    by auto
  have "\<forall>i<length (c # cols). header_name sc cutoff mapping ((c # cols) ! i) = Inr ((n # ns) ! i)"
    using n ns(3) by (auto simp: nth_Cons split: nat.splits)
  then show ?case
    using n ns(1,2) by simp
qed

text \<open>
  Claim C5. With a scorer that rates a string against itself at 85 or more (rapidfuzz rates
  it at 100) and a mapping without an empty key, \<^verbatim>\<open>normalize_headers\<close> returns a frame, and
  each of its column labels is decided by a best-scoring key of the mapping: at a score of 85
  or more the label is that key's canonical name, below 85 it is the incoming label.
\<close>

theorem normalize_headers_cutoff_85:
  assumes "mapping \<noteq> []" and "[] \<notin> fst ` set mapping"
    and "\<forall>c\<in>set (columns df). 85 \<le> sc c c"
  shows "\<exists>df'. normalize_headers sc df mapping = Inr df' \<and>
           length (columns df') = length (columns df) \<and>
           (\<forall>i<length (columns df). \<exists>k\<in>fst ` set mapping.
               (\<forall>k'\<in>fst ` set mapping. sc (columns df ! i) k' \<le> sc (columns df ! i) k) \<and>
               (85 \<le> sc (columns df ! i) k \<longrightarrow> map_of mapping k = Some (columns df' ! i)) \<and>
               (sc (columns df ! i) k < 85 \<longrightarrow> columns df' ! i = columns df ! i))"
proof -
  have one: "\<exists>k\<in>fst ` set mapping. \<exists>n.
           header_name sc 85 mapping c = Inr n \<and>
           (\<forall>k'\<in>fst ` set mapping. sc c k' \<le> sc c k) \<and>
           (85 \<le> sc c k \<longrightarrow> map_of mapping k = Some n) \<and>
           (sc c k < 85 \<longrightarrow> n = c)"
    if "c \<in> set (columns df)" for c
    using header_name_cutoff [OF assms(1,2), of 85 sc c] assms(3) that by blast
  then have "\<forall>c\<in>set (columns df). \<exists>n. header_name sc 85 mapping c = Inr n"
    by blast
  from header_names_nth [OF this]
  obtain ns where ns: "header_names sc 85 mapping (columns df) = Inr ns"
    "length ns = length (columns df)"
    "\<forall>i<length (columns df). header_name sc 85 mapping (columns df ! i) = Inr (ns ! i)"
    by blast
  have res: "normalize_headers sc df mapping = Inr (rename_columns df ns)"
    by (simp add: normalize_headers_def normalize_headers_cutoff_def ns(1))
  have cols: "columns (rename_columns df ns) = ns"
    by (simp add: rename_columns_def)
  have each: "\<exists>k\<in>fst ` set mapping.
               (\<forall>k'\<in>fst ` set mapping. sc (columns df ! i) k' \<le> sc (columns df ! i) k) \<and>
               (85 \<le> sc (columns df ! i) k \<longrightarrow> map_of mapping k = Some (ns ! i)) \<and>
               (sc (columns df ! i) k < 85 \<longrightarrow> ns ! i = columns df ! i)"
    if i: "i < length (columns df)" for i
  proof -
    let ?c = "columns df ! i"
    have "?c \<in> set (columns df)"
      using i by simp
    from one [OF this] obtain k n where k: "k \<in> fst ` set mapping"
      and n: "header_name sc 85 mapping ?c = Inr n"
      and best: "\<forall>k'\<in>fst ` set mapping. sc ?c k' \<le> sc ?c k"
      and hi: "85 \<le> sc ?c k \<longrightarrow> map_of mapping k = Some n"
      and lo: "sc ?c k < 85 \<longrightarrow> n = ?c"
      by blast
    have eq: "n = ns ! i"
      using ns(3) i n by simp
    show ?thesis
    proof (intro bexI [of _ k] conjI)
      show "\<forall>k'\<in>fst ` set mapping. sc ?c k' \<le> sc ?c k"
        by (rule best)
      show "85 \<le> sc ?c k \<longrightarrow> map_of mapping k = Some (ns ! i)"
        using hi eq by simp
      show "sc ?c k < 85 \<longrightarrow> ns ! i = ?c"
        using lo eq by simp
      show "k \<in> fst ` set mapping"
        by (rule k)
    qed
  qed
  show ?thesis
  proof (intro exI [of _ "rename_columns df ns"] conjI allI impI)
    show "normalize_headers sc df mapping = Inr (rename_columns df ns)"
      by (rule res)
    show "length (columns (rename_columns df ns)) = length (columns df)"
      by (simp add: cols ns(2))
    show "\<exists>k\<in>fst ` set mapping.
               (\<forall>k'\<in>fst ` set mapping. sc (columns df ! i) k' \<le> sc (columns df ! i) k) \<and>
               (85 \<le> sc (columns df ! i) k
                  \<longrightarrow> map_of mapping k = Some (columns (rename_columns df ns) ! i)) \<and>
               (sc (columns df ! i) k < 85
                  \<longrightarrow> columns (rename_columns df ns) ! i = columns df ! i)"
      if "i < length (columns df)" for i
      unfolding cols using that by (rule each)
  qed
qed

lemma w_raw_scores:
  "list_all (\<lambda>c. 85 \<le> token_sort_ratio c c) (columns w_raw)"
  by code_simp

text \<open>
  The example sheet: its headers score 88, 500/11, exactly 85 and 80 against their best keys.
\<close>

lemma w_raw_best:
  "map (\<lambda>c. extractOne token_sort_ratio c (map fst charges_mapping)) (columns w_raw) =
     [Some (''Account Num'', 88, 0), Some (''Batch Date'', 500 / 11, 2),
      Some (''Responsible Provider'', 85, 4), Some (''Responsible Provider'', 80, 4)]"
  by code_simp

lemma w_raw_normalized:
  "normalize_headers token_sort_ratio w_raw charges_mapping =
     Inr \<lparr>columns = [''Claim No'', ''Patient Name'', ''Provider Name'', ''Provider ResponsXYZW''],
          rows = [[(''Claim No'', Num 7), (''Patient Name'', Str ''Ann''),
                   (''Provider Name'', Str ''Dr A''), (''Provider ResponsXYZW'', Str ''Dr B'')]]\<rparr>"
  by code_simp

theorem normalize_headers_cutoff_85_witness:
  "\<exists>df'. normalize_headers token_sort_ratio w_raw charges_mapping = Inr df' \<and>
         columns df' = [''Claim No'', ''Patient Name'', ''Provider Name'', ''Provider ResponsXYZW'']"
  using normalize_headers_cutoff_85 [of charges_mapping w_raw token_sort_ratio]
    w_raw_scores w_raw_normalized
  by (simp add: charges_mapping_def list_all_iff)

lemma mapping_header_name_exact:
  assumes "map_of mapping col = Some canonical" and "col \<noteq> []"
  shows "mapping_header_name sc score_cutoff mapping col = Inr canonical"
proof -
  have "col \<in> fst ` set mapping"
    using assms(1) by (metis map_of_eq_None_iff option.distinct(1))
  then show ?thesis
    using assms by (simp add: mapping_header_name_def mapping_fuzzy_match_header_def)
qed

lemma header_name_exact:
  assumes "map_of mapping col = Some canonical"
    and strict: "\<forall>k\<in>fst ` set mapping. k \<noteq> col \<longrightarrow> sc col k < sc col col"
  shows "header_name sc score_cutoff mapping col = Inr canonical"
proof -
  have col: "col \<in> fst ` set mapping"
    using assms(1) by (metis map_of_eq_None_iff option.distinct(1))
  then have "map fst mapping \<noteq> []"
    by auto
  then obtain k s j where ex: "extractOne sc col (map fst mapping) = Some (k, s, j)"
    by (rule extractOne_Some)
  from extractOne_best [OF this]
  have k: "k \<in> fst ` set mapping" and best: "\<forall>k'\<in>fst ` set mapping. sc col k' \<le> sc col k"
    by auto
  have "k = col"
    using strict k best col by force
  then show ?thesis
    using ex assms(1) by (simp add: header_name_def fuzzy_match_header_def)
qed

text \<open>
  Claim C6. A column that is a key of the mapping gets the key's canonical name, whatever
  the cutoff: in mapping.py by the exact-match test, for every scorer; in ETL.py, which has no
  such test, because the key itself is returned as the best match or looked up directly when
  the score misses the cutoff, provided no other key scores as high against the column as
  the column itself.
\<close>

theorem exact_key_renamed:
  assumes "map_of mapping col = Some canonical" and "col \<noteq> []"
  shows "mapping_header_name sc score_cutoff mapping col = Inr canonical \<and>
         ((\<forall>k\<in>fst ` set mapping. k \<noteq> col \<longrightarrow> sc col k < sc col col)
          \<longrightarrow> header_name sc score_cutoff mapping col = Inr canonical)"
  using mapping_header_name_exact [OF assms] header_name_exact [OF assms(1)] by blast

text \<open>
  Under the model of \<^verbatim>\<open>token_sort_ratio\<close>, every vendor header scores 100 against itself
  and less against every other vendor header, so in ETL.py too each key of each of the four
  mappings gets its canonical name at every cutoff.
\<close>

lemma vendor_keys_scores:
  "list_all (\<lambda>col. list_all (\<lambda>k. k = col \<or> token_sort_ratio col k < 100) vendor_keys
      \<and> token_sort_ratio col col = 100) vendor_keys"
  by code_simp

lemma vendor_key_strict:
  assumes "(role, mapping) \<in> set sheet_mappings" and "col \<in> fst ` set mapping"
  shows "\<forall>k\<in>fst ` set mapping. k \<noteq> col
           \<longrightarrow> token_sort_ratio col k < token_sort_ratio col col"
proof (intro ballI impI)
  fix k
  assume k: "k \<in> fst ` set mapping" and ne: "k \<noteq> col"
  have sub: "fst ` set mapping \<subseteq> set vendor_keys"
    using assms(1) by (force simp: vendor_keys_def)
  have "col \<in> set vendor_keys" and "k \<in> set vendor_keys"
    using sub assms(2) k by auto
  with vendor_keys_scores ne
  have "token_sort_ratio col k < 100" and "token_sort_ratio col col = 100"
    by (auto simp: list_all_iff)
  then show "token_sort_ratio col k < token_sort_ratio col col"
    by simp
qed

lemma sheet_mappings_exact:
  assumes "(role, mapping) \<in> set sheet_mappings" and "map_of mapping col = Some canonical"
  shows "header_name token_sort_ratio score_cutoff mapping col = Inr canonical"
proof -
  have "col \<in> fst ` set mapping"
    using assms(2) by (metis map_of_eq_None_iff option.distinct(1))
  from vendor_key_strict [OF assms(1) this] show ?thesis
    by (rule header_name_exact [OF assms(2), of token_sort_ratio])
qed

theorem exact_key_renamed_witness:
  "\<forall>cutoff.
     mapping_header_name token_sort_ratio cutoff charges_mapping ''Account Num'' = Inr ''Claim No'' \<and>
     header_name token_sort_ratio cutoff charges_mapping ''Account Num'' = Inr ''Claim No''"
proof
  fix cutoff
  have m: "map_of charges_mapping ''Account Num'' = Some ''Claim No''"
    by (simp add: charges_mapping_def)
  have "(''Charges'', charges_mapping) \<in> set sheet_mappings"
    and "''Account Num'' \<in> fst ` set charges_mapping"
    by (simp_all add: sheet_mappings_def charges_mapping_def)
  from vendor_key_strict [OF this]
  have strict: "\<forall>k\<in>fst ` set charges_mapping. k \<noteq> ''Account Num''
      \<longrightarrow> token_sort_ratio ''Account Num'' k < token_sort_ratio ''Account Num'' ''Account Num''" .
  show "mapping_header_name token_sort_ratio cutoff charges_mapping ''Account Num'' = Inr ''Claim No'' \<and>
     header_name token_sort_ratio cutoff charges_mapping ''Account Num'' = Inr ''Claim No''"
    using exact_key_renamed [OF m, of token_sort_ratio cutoff] strict by blast
qed

section \<open>Sheet classifier\<close>

lemma find_sheet_first:
  "find_sheet sheets keyword = Some s \<longleftrightarrow>
     (\<exists>i<length sheets. sheets ! i = s \<and> contains (lower keyword) (lower s) \<and>
        (\<forall>j<i. \<not> contains (lower keyword) (lower (sheets ! j))))"
  by (auto simp: find_sheet_def find_Some_iff)

text \<open>
  In general the loop of ETL.py leaves under a role the last of the sheets whose first
  matching role it is.
\<close>

lemma select_sheets_last:
  "select_sheets processed sheets key =
     (case filter (\<lambda>s. first_role s = Some key) sheets of
        [] \<Rightarrow> processed key
      | s # ss \<Rightarrow> Some (last (s # ss)))"
proof (induction sheets arbitrary: processed)
  case Nil
  then show ?case by simp
next
  case (Cons sheet sheets)
  show ?case
  proof (cases "first_role sheet")
    case None
    then show ?thesis
      using Cons.IH [of processed] by simp
  next
    case (Some k)
    then show ?thesis
      using Cons.IH [of "processed(k \<mapsto> sheet)"]
      by (auto split: list.splits simp: fun_upd_def)
  qed
qed

text \<open>
  Claim C4 on a workbook with two Charges sheets: the loop of \<^verbatim>\<open>process_single_file\<close>
  keeps the second one, where \<^verbatim>\<open>find_sheet\<close> of \<^verbatim>\<open>final_2.py\<close> returns the first.
\<close>

theorem select_sheets_keeps_last:
  "select_sheets Map.empty cx_sheet_names ''Charges'' = Some ''Charges Q2'' \<and>
   find_sheet cx_sheet_names ''charges'' = Some ''Charges Q1''"
  by (simp add: cx_sheet_names_def first_role_def find_sheet_def sheet_mappings_def lower_def)

section \<open>Final column names\<close>

lemma make_unique_loop_length: "length (make_unique_loop seen cols) = length cols"
  by (induction cols arbitrary: seen) (auto split: option.splits)

text \<open>
  Claim C9 on a merged table with the labels \<open>Claim No\<close>, \<open>Notes\<close>, \<open>notes\<close> and
  \<open>notes_1\<close>: the third label is lower-cased to a repeat of the second and gets the name
  \<open>notes_1\<close>, which the fourth label then brings again, as a label not seen before. The
  final names are not pairwise distinct.
\<close>

theorem final_columns_not_unique:
  "final_columns [''Claim No'', ''Notes'', ''notes'', ''notes_1''] =
     [''claim no'', ''notes'', ''notes_1'', ''notes_1''] \<and>
   \<not> distinct (final_columns [''Claim No'', ''Notes'', ''notes'', ''notes_1''])"
  by (simp add: final_columns_def make_unique_columns_def lower_def strip_def is_space_def)

section \<open>KPI engine\<close>

lemma map_of_replace:
  "map_of (map (\<lambda>(c, old). if c = name then (c, v) else (c, old)) r) c =
     (if c = name then (if name \<in> fst ` set r then Some v else None) else map_of r c)"
  by (induction r) force+

lemma cell_at_set_cell: "cell_at (set_cell r name v) c = (if c = name then v else cell_at r c)"
proof (cases "name \<in> fst ` set r")
  case True
  then show ?thesis
    by (simp add: set_cell_def cell_at_def map_of_replace)
next
  case False
  then have "map_of r name = None"
    by (simp add: map_of_eq_None_iff)
  then show ?thesis
    using False by (auto simp: set_cell_def cell_at_def map_add_def split: option.splits)
qed

lemma assign_column_cell:
  "i < length (rows df) \<Longrightarrow>
     cell_at (rows (assign_column df name f) ! i) c =
       (if c = name then f (rows df ! i) else cell_at (rows df ! i) c)"
  by (simp add: assign_column_def cell_at_set_cell)

lemma assign_column_same_columns:
  "name \<in> set (columns df) \<Longrightarrow> columns (assign_column df name f) = columns df"
  by (simp add: assign_column_def)

lemma kept_refl: "kept L df df"
  by (simp add: kept_def)

lemma kept_trans:
  assumes "kept L1 a b" and "kept L2 b c"
  shows "kept (L1 \<union> L2) a c"
  using assms unfolding kept_def by auto

lemma kept_length: "kept L a b \<Longrightarrow> length (rows b) = length (rows a)"
  by (simp add: kept_def)

lemma kept_column: "kept L a b \<Longrightarrow> c \<in> set (columns a) \<Longrightarrow> c \<in> set (columns b)"
  by (auto simp: kept_def)

lemma kept_count: "kept L a b \<Longrightarrow> c \<notin> L \<Longrightarrow> count_list (columns b) c = count_list (columns a) c"
  by (simp add: kept_def)

lemma kept_cell:
  "kept L a b \<Longrightarrow> c \<notin> L \<Longrightarrow> i < length (rows a) \<Longrightarrow>
     cell_at (rows b ! i) c = cell_at (rows a ! i) c"
  by (simp add: kept_def)

lemma kept_column_values:
  assumes "kept L a b" and "c \<notin> L"
  shows "column_values b c = column_values a c"
  unfolding column_values_def
  by (rule nth_equalityI) (simp_all add: kept_length [OF assms(1)] kept_cell [OF assms])

lemma assign_column_kept: "kept {name} df (assign_column df name f)"
  by (auto simp: kept_def assign_column_def cell_at_set_cell)

lemma numeric_zero: "numeric lib (Num 0) = Num 0"
  by (simp add: numeric_def fillna_def to_numeric_def)

lemma numeric_Null: "numeric lib Null = Num 0"
  by (simp add: numeric_def fillna_def to_numeric_def)

lemma coerce_column_Inr:
  assumes "coerce_column lib df col = Inr d"
  shows "columns d = columns df" and "length (rows d) = length (rows df)"
    and "i < length (rows df) \<Longrightarrow> cell_at (rows d ! i) c =
           (if c = col \<and> col \<in> set (columns df) then numeric lib (cell_at (rows df ! i) c)
            else cell_at (rows df ! i) c)"
    and "col \<in> set (columns df) \<Longrightarrow> count_list (columns df) col = 1"
proof -
  show "columns d = columns df"
    using assms by (auto simp: coerce_column_def assign_column_same_columns split: if_splits)
  show "length (rows d) = length (rows df)"
    using assms by (auto simp: coerce_column_def assign_column_def split: if_splits)
  show "cell_at (rows d ! i) c =
           (if c = col \<and> col \<in> set (columns df) then numeric lib (cell_at (rows df ! i) c)
            else cell_at (rows df ! i) c)" if "i < length (rows df)"
    using assms that
    by (auto simp: coerce_column_def assign_column_cell split: if_splits)
  show "count_list (columns df) col = 1" if "col \<in> set (columns df)"
    using assms that by (auto simp: coerce_column_def split: if_splits)
qed

lemma coerce_columns_Inr:
  assumes "coerce_columns lib df cols = Inr d" and "distinct cols"
  shows "columns d = columns df \<and> length (rows d) = length (rows df) \<and>
         (\<forall>i<length (rows df). \<forall>c. cell_at (rows d ! i) c =
            (if c \<in> set cols \<and> c \<in> set (columns df) then numeric lib (cell_at (rows df ! i) c)
             else cell_at (rows df ! i) c))"
  using assms
proof (induction cols arbitrary: df)
  case Nil
  then show ?case by simp
next
  case (Cons col cols)
  from Cons.prems(1) obtain d1 where d1: "coerce_column lib df col = Inr d1"
    and rest: "coerce_columns lib d1 cols = Inr d"
    by (auto split: sum.splits)
  note c = coerce_column_Inr [OF d1]
  have ih: "columns d = columns d1 \<and> length (rows d) = length (rows d1) \<and>
         (\<forall>i<length (rows d1). \<forall>c. cell_at (rows d ! i) c =
            (if c \<in> set cols \<and> c \<in> set (columns d1) then numeric lib (cell_at (rows d1 ! i) c)
             else cell_at (rows d1 ! i) c))"
    using Cons.IH [OF rest] Cons.prems(2) by simp
  have "cell_at (rows d ! i) x =
          (if x \<in> set (col # cols) \<and> x \<in> set (columns df)
           then numeric lib (cell_at (rows df ! i) x) else cell_at (rows df ! i) x)"
    if i: "i < length (rows df)" for i x
  proof -
    have "cell_at (rows d ! i) x =
            (if x \<in> set cols \<and> x \<in> set (columns df) then numeric lib (cell_at (rows d1 ! i) x)
             else cell_at (rows d1 ! i) x)"
      using ih i c(1,2) by simp
    moreover have "cell_at (rows d1 ! i) x =
            (if x = col \<and> col \<in> set (columns df) then numeric lib (cell_at (rows df ! i) x)
             else cell_at (rows df ! i) x)"
      by (rule c(3) [OF i])
    ultimately show ?thesis
      using Cons.prems(2) by auto
  qed
  then show ?case
    using ih c(1,2) by simp
qed

lemma coerce_columns_returns:
  assumes "\<forall>c\<in>set cols. count_list (columns df) c \<le> 1"
  shows "\<exists>d. coerce_columns lib df cols = Inr d"
  using assms
proof (induction cols arbitrary: df)
  case Nil
  then show ?case by simp
next
  case (Cons col cols)
  have "count_list (columns df) col \<le> 1"
    using Cons.prems by simp
  moreover have "col \<in> set (columns df) \<Longrightarrow> 0 < count_list (columns df) col"
    by (metis count_list_0_iff gr0I)
  ultimately obtain d1 where d1: "coerce_column lib df col = Inr d1"
    by (cases "col \<in> set (columns df)") (auto simp: coerce_column_def)
  have "columns d1 = columns df"
    by (rule coerce_column_Inr(1) [OF d1])
  then show ?case
    using Cons.IH [of d1] Cons.prems d1 by simp
qed

lemma lag_block_kept: "lag_block lib df later earlier name = Inr d \<Longrightarrow> kept {name} df d"
  by (auto simp: lag_block_def assign_column_kept kept_refl split: if_splits option.splits)

lemma gcr_block_kept: "kept {''GCR (%)''} df (gcr_block lib df)"
  by (simp add: gcr_block_def assign_column_kept kept_refl)

lemma gcr_block_cell:
  assumes "''Paid Amount'' \<in> set (columns df)" and "''Billed Amount'' \<in> set (columns df)"
    and "i < length (rows df)"
  shows "cell_at (rows (gcr_block lib df) ! i) ''GCR (%)'' =
           gcr lib (numeric lib (cell_at (rows df ! i) ''Paid Amount''))
                   (numeric lib (cell_at (rows df ! i) ''Billed Amount''))"
  using assms by (simp add: gcr_block_def assign_column_cell)

lemma ncr_block_kept: "kept {''NCR (%)'', ''CCR (%)''} df (ncr_block lib df)"
proof (cases "''Paid Amount'' \<in> set (columns df) \<and> ''Billed Amount'' \<in> set (columns df)
         \<and> ''Adjustment Amount'' \<in> set (columns df)")
  case True
  have "kept ({''NCR (%)''} \<union> {''CCR (%)''}) df
          (assign_column (assign_column df ''NCR (%)'' (ncr_row lib)) ''CCR (%)'' (ncr_row lib))"
    by (rule kept_trans) (rule assign_column_kept)+
  then show ?thesis
    using True by (simp add: ncr_block_def insert_commute)
next
  case False
  then show ?thesis
    by (auto simp: ncr_block_def kept_refl)
qed

lemma ar_days_block_kept: "kept {''AR Days''} df (ar_days_block lib df)"
  by (simp add: ar_days_block_def Let_def assign_column_kept kept_refl)

lemma ar_days_block_cell:
  assumes "''AR Balance'' \<in> set (columns df)" and "''Billed Amount'' \<in> set (columns df)"
    and "i < length (rows df)"
  shows "cell_at (rows (ar_days_block lib df) ! i) ''AR Days'' =
           (if num_sum lib (column_values df ''Billed Amount'') = Num 0 \<or>
               na_div lib (num_sum lib (column_values df ''Billed Amount'')) (Num 30) = Num 0
            then Null
            else na_round lib 1
                   (na_div lib (cell_at (rows df ! i) ''AR Balance'')
                      (na_div lib (num_sum lib (column_values df ''Billed Amount'')) (Num 30))))"
  using assms by (simp add: ar_days_block_def Let_def assign_column_cell truthy_def)

lemma aging_block_kept: "aging_block lib df = Inr d \<Longrightarrow> kept {''90+ AR Days (%)''} df d"
  by (auto simp: aging_block_def assign_column_kept kept_refl split: if_splits option.splits)

lemma denial_block_kept: "denial_block lib df = Inr d \<Longrightarrow> kept {''Denial Rate (%)''} df d"
  by (auto simp: denial_block_def assign_column_kept kept_refl split: if_splits)

lemma calculate_kpis_frames:
  assumes "calculate_kpis lib df = Inr out"
  obtains df1 df2 df3 df4 where
    "coerce_columns lib df [''Paid Amount'', ''Billed Amount'', ''Adjustment Amount'', ''AR Balance'']
       = Inr df1"
    and "lag_block lib df1 ''Charge Entry Date'' ''DOS'' ''Charge Lag (days)'' = Inr df2"
    and "lag_block lib df2 ''Payment Entry Date'' ''Charge Entry Date'' ''Billing Lag (days)'' = Inr df3"
    and "aging_block lib (ar_days_block lib (ncr_block lib (gcr_block lib df3))) = Inr df4"
    and "denial_block lib df4 = Inr out"
  using assms unfolding calculate_kpis_def by (auto split: sum.splits)

lemma lags_kept:
  assumes "lag_block lib df1 ''Charge Entry Date'' ''DOS'' ''Charge Lag (days)'' = Inr df2"
    and "lag_block lib df2 ''Payment Entry Date'' ''Charge Entry Date'' ''Billing Lag (days)'' = Inr df3"
  shows "kept {''Charge Lag (days)'', ''Billing Lag (days)''} df1 df3"
  using kept_trans [OF lag_block_kept [OF assms(1)] lag_block_kept [OF assms(2)]]
  by (simp add: insert_commute)

lemma tail_kept:
  assumes "aging_block lib (ar_days_block lib n) = Inr df4" and "denial_block lib df4 = Inr out"
  shows "kept {''AR Days'', ''90+ AR Days (%)'', ''Denial Rate (%)''} n out"
    and "kept {''90+ AR Days (%)'', ''Denial Rate (%)''} (ar_days_block lib n) out"
proof -
  show k: "kept {''90+ AR Days (%)'', ''Denial Rate (%)''} (ar_days_block lib n) out"
    using kept_trans [OF aging_block_kept [OF assms(1)] denial_block_kept [OF assms(2)]]
    by (simp add: insert_commute)
  show "kept {''AR Days'', ''90+ AR Days (%)'', ''Denial Rate (%)''} n out"
    using kept_trans [OF ar_days_block_kept k] by (simp add: insert_commute)
qed

lemma amounts_distinct:
  "distinct [''Paid Amount'', ''Billed Amount'', ''Adjustment Amount'', ''AR Balance'']"
  by simp

lemma calculate_kpis_rows:
  assumes "calculate_kpis lib df = Inr out"
  shows "length (rows out) = length (rows df)"
proof -
  from assms(1) obtain df1 df2 df3 df4 where
    c: "coerce_columns lib df [''Paid Amount'', ''Billed Amount'', ''Adjustment Amount'', ''AR Balance'']
       = Inr df1"
    and l1: "lag_block lib df1 ''Charge Entry Date'' ''DOS'' ''Charge Lag (days)'' = Inr df2"
    and l2: "lag_block lib df2 ''Payment Entry Date'' ''Charge Entry Date'' ''Billing Lag (days)'' = Inr df3"
    and a: "aging_block lib (ar_days_block lib (ncr_block lib (gcr_block lib df3))) = Inr df4"
    and d: "denial_block lib df4 = Inr out"
    by (rule calculate_kpis_frames)
  have "length (rows out) = length (rows (ncr_block lib (gcr_block lib df3)))"
    by (rule kept_length [OF tail_kept(1) [OF a d]])
  also have "\<dots> = length (rows df3)"
    by (simp add: kept_length [OF ncr_block_kept] kept_length [OF gcr_block_kept])
  also have "\<dots> = length (rows df1)"
    by (rule kept_length [OF lags_kept [OF l1 l2]])
  also have "\<dots> = length (rows df)"
    using coerce_columns_Inr [OF c amounts_distinct] by simp
  finally show ?thesis .
qed

lemma calculate_kpis_gcr:
  assumes "calculate_kpis lib df = Inr out"
    and "''Paid Amount'' \<in> set (columns df)" and "''Billed Amount'' \<in> set (columns df)"
    and "i < length (rows df)"
  shows "length (rows out) = length (rows df)"
    and "cell_at (rows out ! i) ''GCR (%)'' =
           gcr lib (numeric lib (numeric lib (cell_at (rows df ! i) ''Paid Amount'')))
                   (numeric lib (numeric lib (cell_at (rows df ! i) ''Billed Amount'')))"
proof -
  from assms(1) obtain df1 df2 df3 df4 where
    c: "coerce_columns lib df [''Paid Amount'', ''Billed Amount'', ''Adjustment Amount'', ''AR Balance'']
       = Inr df1"
    and l1: "lag_block lib df1 ''Charge Entry Date'' ''DOS'' ''Charge Lag (days)'' = Inr df2"
    and l2: "lag_block lib df2 ''Payment Entry Date'' ''Charge Entry Date'' ''Billing Lag (days)'' = Inr df3"
    and a: "aging_block lib (ar_days_block lib (ncr_block lib (gcr_block lib df3))) = Inr df4"
    and d: "denial_block lib df4 = Inr out"
    by (rule calculate_kpis_frames)
  note c1 = coerce_columns_Inr [OF c amounts_distinct]
  note k13 = lags_kept [OF l1 l2]
  let ?g = "gcr_block lib df3"
  have kg: "kept {''NCR (%)'', ''CCR (%)'', ''AR Days'', ''90+ AR Days (%)'', ''Denial Rate (%)''} ?g out"
    using kept_trans [OF ncr_block_kept tail_kept(1) [OF a d]] by (simp add: insert_commute)
  have len1: "length (rows df1) = length (rows df)"
    using c1 by simp
  have len3: "length (rows df3) = length (rows df)"
    using kept_length [OF k13] len1 by simp
  have leng: "length (rows ?g) = length (rows df)"
    using kept_length [OF gcr_block_kept, of lib df3] len3 by simp
  show "length (rows out) = length (rows df)"
    using kept_length [OF kg] leng by simp
  have in3: "''Paid Amount'' \<in> set (columns df3)" "''Billed Amount'' \<in> set (columns df3)"
    using assms(2,3) c1 kept_column [OF k13] by simp_all
  have i3: "i < length (rows df3)"
    using assms(4) len3 by simp
  have i1: "i < length (rows df1)"
    using assms(4) len1 by simp
  have p: "cell_at (rows df3 ! i) ''Paid Amount'' = numeric lib (cell_at (rows df ! i) ''Paid Amount'')"
    using kept_cell [OF k13 _ i1, of "''Paid Amount''"] c1 assms(2,4) by simp
  have b: "cell_at (rows df3 ! i) ''Billed Amount'' = numeric lib (cell_at (rows df ! i) ''Billed Amount'')"
    using kept_cell [OF k13 _ i1, of "''Billed Amount''"] c1 assms(3,4) by simp
  have "cell_at (rows out ! i) ''GCR (%)'' = cell_at (rows ?g ! i) ''GCR (%)''"
    using kept_cell [OF kg, of "''GCR (%)''" i] assms(4) leng by simp
  then show "cell_at (rows out ! i) ''GCR (%)'' =
           gcr lib (numeric lib (numeric lib (cell_at (rows df ! i) ''Paid Amount'')))
                   (numeric lib (numeric lib (cell_at (rows df ! i) ''Billed Amount'')))"
    using gcr_block_cell [OF in3 i3, of lib] p b by simp
qed

lemma calculate_kpis_ar_days:
  assumes "calculate_kpis lib df = Inr out"
    and "''AR Balance'' \<in> set (columns df)" and "''Billed Amount'' \<in> set (columns df)"
    and "i < length (rows df)"
  shows "cell_at (rows out ! i) ''AR Days'' =
           (if num_sum lib (map (numeric lib) (column_values df ''Billed Amount'')) = Num 0 \<or>
               na_div lib (num_sum lib (map (numeric lib) (column_values df ''Billed Amount'')))
                 (Num 30) = Num 0
            then Null
            else na_round lib 1
                   (na_div lib (numeric lib (cell_at (rows df ! i) ''AR Balance''))
                      (na_div lib (num_sum lib (map (numeric lib) (column_values df ''Billed Amount'')))
                         (Num 30))))"
proof -
  from assms(1) obtain df1 df2 df3 df4 where
    c: "coerce_columns lib df [''Paid Amount'', ''Billed Amount'', ''Adjustment Amount'', ''AR Balance'']
       = Inr df1"
    and l1: "lag_block lib df1 ''Charge Entry Date'' ''DOS'' ''Charge Lag (days)'' = Inr df2"
    and l2: "lag_block lib df2 ''Payment Entry Date'' ''Charge Entry Date'' ''Billing Lag (days)'' = Inr df3"
    and a: "aging_block lib (ar_days_block lib (ncr_block lib (gcr_block lib df3))) = Inr df4"
    and d: "denial_block lib df4 = Inr out"
    by (rule calculate_kpis_frames)
  note c1 = coerce_columns_Inr [OF c amounts_distinct]
  let ?n = "ncr_block lib (gcr_block lib df3)"
  let ?L = "{''Charge Lag (days)'', ''Billing Lag (days)'', ''GCR (%)'', ''NCR (%)'', ''CCR (%)''}"
  have k1n: "kept ?L df1 ?n"
    using kept_trans [OF lags_kept [OF l1 l2] kept_trans [OF gcr_block_kept ncr_block_kept]]
    by (simp add: insert_commute)
  have len1: "length (rows df1) = length (rows df)"
    using c1 by simp
  have lenn: "length (rows ?n) = length (rows df)"
    using kept_length [OF k1n] len1 by simp
  have inn: "''AR Balance'' \<in> set (columns ?n)" "''Billed Amount'' \<in> set (columns ?n)"
    using assms(2,3) c1 kept_column [OF k1n] by simp_all
  have i1: "i < length (rows df1)"
    using assms(4) len1 by simp
  have ar: "cell_at (rows ?n ! i) ''AR Balance'' = numeric lib (cell_at (rows df ! i) ''AR Balance'')"
    using kept_cell [OF k1n _ i1, of "''AR Balance''"] c1 assms(2,4) by simp
  have "column_values df1 ''Billed Amount'' = map (numeric lib) (column_values df ''Billed Amount'')"
    unfolding column_values_def
    by (rule nth_equalityI) (use c1 assms(3) in simp_all)
  then have bl: "column_values ?n ''Billed Amount'' =
                   map (numeric lib) (column_values df ''Billed Amount'')"
    using kept_column_values [OF k1n, of "''Billed Amount''"] by simp
  have "cell_at (rows out ! i) ''AR Days'' = cell_at (rows (ar_days_block lib ?n) ! i) ''AR Days''"
    using kept_cell [OF tail_kept(2) [OF a d], of "''AR Days''" i]
      kept_length [OF ar_days_block_kept, of lib ?n] lenn assms(4) by simp
  then show ?thesis
    using ar_days_block_cell [OF inn, of i lib] lenn assms(4) ar bl by simp
qed

text \<open>
  \<^verbatim>\<open>calculate_kpis\<close> returns a frame unless a column-level call is refused: an amount label
  or Financial Status that names two columns, a lag of columns that are no dates, or a
  refused \<^verbatim>\<open>df.apply\<close>. No division ends it.
\<close>

lemma calculate_kpis_returns:
  assumes "\<forall>c\<in>set [''Paid Amount'', ''Billed Amount'', ''Adjustment Amount'', ''AR Balance''].
             count_list (columns df) c \<le> 1"
    and "count_list (columns df) ''Financial Status'' \<le> 1"
    and "\<And>d later earlier. lag_error lib d later earlier = None"
    and "\<And>d. apply_error lib d = None"
  shows "\<exists>out. calculate_kpis lib df = Inr out"
proof -
  obtain df1 where c: "coerce_columns lib df
      [''Paid Amount'', ''Billed Amount'', ''Adjustment Amount'', ''AR Balance''] = Inr df1"
    using coerce_columns_returns [OF assms(1)] by blast
  have lag: "\<exists>d'. lag_block lib d later earlier name = Inr d'" for d later earlier name
    by (simp add: lag_block_def assms(3))
  obtain df2 where l1: "lag_block lib df1 ''Charge Entry Date'' ''DOS'' ''Charge Lag (days)'' = Inr df2"
    using lag by blast
  obtain df3 where l2:
    "lag_block lib df2 ''Payment Entry Date'' ''Charge Entry Date'' ''Billing Lag (days)'' = Inr df3"
    using lag by blast
  have "\<exists>d'. aging_block lib d = Inr d'" for d
    by (simp add: aging_block_def assms(4))
  then obtain df4 where a:
    "aging_block lib (ar_days_block lib (ncr_block lib (gcr_block lib df3))) = Inr df4"
    by blast
  have "kept ({''Charge Lag (days)'', ''Billing Lag (days)''} \<union>
              ({''GCR (%)''} \<union> ({''NCR (%)'', ''CCR (%)''} \<union>
              ({''AR Days''} \<union> {''90+ AR Days (%)''})))) df1 df4"
    by (rule kept_trans [OF lags_kept [OF l1 l2] kept_trans [OF gcr_block_kept
          kept_trans [OF ncr_block_kept kept_trans [OF ar_days_block_kept aging_block_kept [OF a]]]]])
  then have "count_list (columns df4) ''Financial Status'' = count_list (columns df1) ''Financial Status''"
    by (rule kept_count) simp
  moreover have "columns df1 = columns df"
    using coerce_columns_Inr [OF c amounts_distinct] by simp
  ultimately have fs: "count_list (columns df4) ''Financial Status'' \<le> 1"
    using assms(2) by simp
  have "''Financial Status'' \<in> set (columns df4) \<Longrightarrow> 0 < count_list (columns df4) ''Financial Status''"
    by (metis count_list_0_iff gr0I)
  with fs obtain out where "denial_block lib df4 = Inr out"
    by (cases "''Financial Status'' \<in> set (columns df4)") (auto simp: denial_block_def)
  then show ?thesis
    using c l1 l2 a by (simp add: calculate_kpis_def)
qed

lemma gcr_zero: "num_round lib 2 (Num 0) = Num 0 \<Longrightarrow> gcr lib paid (Num 0) = Num 0"
  by (simp add: gcr_def replace_zero_def na_div_def na_mul_def fillna_def na_round_def)

lemma gcr_not_Null:
  assumes "\<And>v. v \<noteq> Null \<Longrightarrow> num_round lib 2 v \<noteq> Null"
  shows "gcr lib paid billed \<noteq> Null"
proof -
  have "fillna (Num 0) v \<noteq> Null" for v
    by (simp add: fillna_def)
  then show ?thesis
    using assms by (simp add: gcr_def na_round_def)
qed

lemma exact_round_not_Null: "v \<noteq> Null \<Longrightarrow> exact_round n v \<noteq> Null"
  by (cases v) simp_all

text \<open>
  Claim C7. Whatever the library makes of a quotient: when \<^verbatim>\<open>calculate_kpis\<close> returns, on a
  table with the Paid Amount and Billed Amount columns, and rounding to two decimals
  leaves 0 at 0 and makes no number missing, the returned table has the rows of the given
  one, the Gross Collection Ratio is missing in no row, and it is 0 in every row whose
  Billed Amount is zero, is missing or reads as zero (a text that is no number), whatever
  the Paid Amount.
\<close>

theorem gcr_zero_billed:
  assumes "calculate_kpis lib df = Inr out"
    and "''Paid Amount'' \<in> set (columns df)" and "''Billed Amount'' \<in> set (columns df)"
    and "num_round lib 2 (Num 0) = Num 0"
    and "\<And>v. v \<noteq> Null \<Longrightarrow> num_round lib 2 v \<noteq> Null"
  shows "length (rows out) = length (rows df) \<and>
         (\<forall>i<length (rows df).
            cell_at (rows out ! i) ''GCR (%)'' \<noteq> Null \<and>
            (cell_at (rows df ! i) ''Billed Amount'' = Num 0 \<or>
             cell_at (rows df ! i) ''Billed Amount'' = Null \<or>
             numeric lib (cell_at (rows df ! i) ''Billed Amount'') = Num 0
               \<longrightarrow> cell_at (rows out ! i) ''GCR (%)'' = Num 0))"
proof -
  have "cell_at (rows out ! i) ''GCR (%)'' \<noteq> Null \<and>
        (cell_at (rows df ! i) ''Billed Amount'' = Num 0 \<or>
         cell_at (rows df ! i) ''Billed Amount'' = Null \<or>
         numeric lib (cell_at (rows df ! i) ''Billed Amount'') = Num 0
           \<longrightarrow> cell_at (rows out ! i) ''GCR (%)'' = Num 0)"
    if i: "i < length (rows df)" for i
  proof -
    note g = calculate_kpis_gcr(2) [OF assms(1,2,3) i]
    have nn: "cell_at (rows out ! i) ''GCR (%)'' \<noteq> Null"
      unfolding g by (rule gcr_not_Null) (rule assms(5))
    have z: "cell_at (rows out ! i) ''GCR (%)'' = Num 0"
      if "numeric lib (cell_at (rows df ! i) ''Billed Amount'') = Num 0"
      unfolding g that numeric_zero by (rule gcr_zero) (rule assms(4))
    show ?thesis
      using nn z by (auto simp: numeric_zero numeric_Null)
  qed
  then show ?thesis
    using calculate_kpis_rows [OF assms(1)] by simp
qed

lemma w_kpi_result:
  "calculate_kpis example_lib w_kpi =
     Inr \<lparr>columns = [''Claim No'', ''Billed Amount'', ''Paid Amount'', ''AR Balance'',
                      ''GCR (%)'', ''AR Days''],
          rows = [[(''Claim No'', Num 1), (''Billed Amount'', Num 0), (''Paid Amount'', Num 50),
                   (''AR Balance'', Num 16), (''GCR (%)'', Num 0), (''AR Days'', Num (1 / 2))],
                  [(''Claim No'', Num 2), (''Billed Amount'', Num 0), (''Paid Amount'', Num 20),
                   (''AR Balance'', Num 48), (''GCR (%)'', Num 0), (''AR Days'', Num (3 / 2))],
                  [(''Claim No'', Num 3), (''Billed Amount'', Num 960), (''Paid Amount'', Num 240),
                   (''AR Balance'', Num 0), (''GCR (%)'', Num 25), (''AR Days'', Num 0)]]\<rparr>"
  by code_simp

theorem gcr_zero_billed_witness:
  "\<exists>out. calculate_kpis example_lib w_kpi = Inr out \<and> length (rows out) = 3 \<and>
         map (\<lambda>r. cell_at r ''Billed Amount'') (rows w_kpi) = [Num 0, Null, Num 960] \<and>
         map (\<lambda>r. cell_at r ''GCR (%)'') (rows out) = [Num 0, Num 0, Num 25]"
  using gcr_zero_billed [of example_lib w_kpi] w_kpi_result
  by (simp add: w_kpi_def cell_at_def example_lib_def round_to_def round_half_even_def
      exact_round_not_Null)

text \<open>
  Claim C10, as the code has it. With the AR Balance and Billed Amount columns present, a
  missing value or a text that is no number counting as 0 in both, AR Days of a row is
  missing when the Billed Amount of the whole table sums to zero, or a thirtieth of the sum
  is zero, and otherwise it is what the library makes of AR Balance divided by a thirtieth
  of that sum and rounded to one decimal.
\<close>

theorem ar_days_rounded:
  assumes "calculate_kpis lib df = Inr out"
    and "''AR Balance'' \<in> set (columns df)" and "''Billed Amount'' \<in> set (columns df)"
    and "i < length (rows df)"
  shows "cell_at (rows out ! i) ''AR Days'' =
           (if num_sum lib (map (numeric lib) (column_values df ''Billed Amount'')) = Num 0 \<or>
               na_div lib (num_sum lib (map (numeric lib) (column_values df ''Billed Amount'')))
                 (Num 30) = Num 0
            then Null
            else na_round lib 1
                   (na_div lib (numeric lib (cell_at (rows df ! i) ''AR Balance''))
                      (na_div lib (num_sum lib (map (numeric lib) (column_values df ''Billed Amount'')))
                         (Num 30))))"
  using assms by (rule calculate_kpis_ar_days)

lemma cx_ar_result:
  "calculate_kpis example_lib cx_ar =
     Inr \<lparr>columns = [''Claim No'', ''Billed Amount'', ''AR Balance'', ''AR Days''],
          rows = [[(''Claim No'', Num 1), (''Billed Amount'', Num 960), (''AR Balance'', Num 15),
                   (''AR Days'', Num (1 / 2))]]\<rparr>"
  by code_simp

theorem ar_days_rounded_witness:
  "\<exists>out. calculate_kpis example_lib w_kpi = Inr out \<and>
         num_sum example_lib (map (numeric example_lib) (column_values w_kpi ''Billed Amount'')) = Num 960 \<and>
         cell_at (rows w_kpi ! 1) ''AR Balance'' = Num 48 \<and>
         cell_at (rows out ! 1) ''AR Days'' = Num (3 / 2)"
  using ar_days_rounded [OF w_kpi_result, of 1] w_kpi_result
  by (simp add: w_kpi_def column_values_def cell_at_def numeric_def to_numeric_def fillna_def
      example_lib_def exact_sum_def)

text \<open>
  Claim C10 as stated fails: with an AR Balance of 15 and a Billed Amount of 960, the only
  row, a thirtieth of the sum is 32 and AR Days is 0.5, not 15 / 32 = 0.46875.
\<close>

theorem ar_days_rounded_counterexample:
  "calculate_kpis example_lib cx_ar =
     Inr \<lparr>columns = [''Claim No'', ''Billed Amount'', ''AR Balance'', ''AR Days''],
          rows = [[(''Claim No'', Num 1), (''Billed Amount'', Num 960), (''AR Balance'', Num 15),
                   (''AR Days'', Num (1 / 2))]]\<rparr>
   \<and> Num (1 / 2) \<noteq> Num (15 / (960 / 30))"
  using cx_ar_result by simp

section \<open>Run persistence and archive\<close>

lemma archive_attempts_3:
  "archive_attempts [0, 1, 2] lock 0 = (lock < 3, min lock 3)"
  by auto

lemma final_2_archive_bounded:
  "final_2_archive lock n = (lock < 3, min lock 3, n + 1)"
  by (auto simp: final_2_archive_def)

text \<open>
  Claim C2 on a workbook that another process holds open during the first attempt to move
  it: \<^verbatim>\<open>process_single_file\<close> of ETL.py has written the export and the table, tries the move
  once and reports a failure; the loop of \<^verbatim>\<open>final_2.py\<close> tries again after a second, moves the
  file and counts it as processed, as it also does when all three attempts fail.
\<close>

theorem locked_file_fails:
  "fst (process_single_file \<lparr>file_name = ''jan.xlsx'', outcome = Inr w_charges, locked = 1\<rparr>
          ''r1'' empty_world) = Failure (PermissionError ''jan.xlsx'') \<and>
   db (snd (process_single_file \<lparr>file_name = ''jan.xlsx'', outcome = Inr w_charges, locked = 1\<rparr>
          ''r1'' empty_world)) ''claims_with_kpis_r1'' = Some w_charges \<and>
   archive (snd (process_single_file \<lparr>file_name = ''jan.xlsx'', outcome = Inr w_charges, locked = 1\<rparr>
          ''r1'' empty_world)) = [] \<and>
   final_2_archive 1 0 = (True, 1, 1) \<and>
   final_2_archive 3 0 = (False, 3, 1)"
  by (simp add: process_single_file_def to_sql_def empty_world_def table_name_def Let_def
      final_2_archive_def w_charges_def lower_def)

text \<open>
  The table name is made of the run identifier alone, and a file touches no other table of
  the database.
\<close>

lemma process_single_file_other_tables:
  "t \<noteq> table_name run_id \<Longrightarrow> db (snd (process_single_file f run_id w)) t = db w t"
  by (auto simp: process_single_file_def to_sql_def Let_def split: sum.splits option.splits)

text \<open>
  Claim C3 on a batch of three workbooks of which the first two are processed and the third
  is held open at its move, after its table was written: the batch reports two files, the
  archive holds the first two, the last of them \<open>feb.xlsx\<close>, and the run's table holds the
  frame of \<open>mar.xlsx\<close>, which is not the frame of \<open>feb.xlsx\<close>.
\<close>

theorem batch_table_after_failed_move:
  "fst (process_files cx_files ''r1'' empty_world) = 2 \<and>
   archive (snd (process_files cx_files ''r1'' empty_world)) = [''jan.xlsx'', ''feb.xlsx''] \<and>
   map (\<lambda>f. fst (process_single_file f ''r1'' empty_world)) cx_files =
     [Success 1 ''jan_with_kpis.csv'', Success 2 ''feb_with_kpis.csv'',
      Failure (PermissionError ''mar.xlsx'')] \<and>
   db (snd (process_files cx_files ''r1'' empty_world)) ''claims_with_kpis_r1'' = Some w_kpi \<and>
   w_kpi \<noteq> w_charges"
  by (simp add: process_files_def process_single_file_def to_sql_def cx_files_def
      endswith_def lower_def table_name_def Let_def empty_world_def splitext_stem_def
      w_kpi_def w_charges_def cx_charges_def)

end
